theory Spec2Isabelle
  imports Complex_Main
begin

section \<open>Piano note detection (main.go)\<close>

text \<open>
  Number model. Go's \<open>float64\<close> and \<open>float32\<close> values are real numbers and \<open>complex128\<close>
  values complex numbers. Where a comparison of the program can sit exactly on a boundary,
  the float64 value is modelled: the constant \<open>0.05\<close> is its nearest float64, and the two
  subtractions of the program (in \<open>findClosestNote\<close> and in the harmonic test) are rounded
  to float64. The products \<open>float64(maxIdx) * freqResolution\<close> and \<open>freq / 2.0\<close> and the
  quotient \<open>44100 / 2048\<close> are exact in float64, and the constants 261, 440 and 2200 are
  float64 values. The note table and the magnitudes are computed with exact arithmetic;
  the statements about nearest notes are made for every table close to the exact one, and
  those about the threshold and the peak scan for every magnitude. Go's \<open>int\<close> loop counters
  never leave the range \<open>0 .. 2048\<close> and are modelled by \<open>nat\<close>. A run-time panic of an
  index expression is the error value \<open>IndexOutOfRange\<close>.
\<close>

datatype error = IndexOutOfRange

subsection \<open>Constants and the Note struct\<close>

definition sampleRate :: nat where
  "sampleRate = 44100"

definition framesPerBuffer :: nat where
  "framesPerBuffer = 2048"

record Note =
  Name :: string
  Frequency :: real

subsection \<open>generatePianoNotes\<close>

definition noteNames :: "string list" where
  "noteNames = [''C'', ''C#'', ''D'', ''D#'', ''E'', ''F'', ''F#'', ''G'', ''G#'', ''A'', ''A#'', ''B'']"

definition digit_char :: "nat \<Rightarrow> char" where
  "digit_char d = ''0123456789'' ! d"

text \<open>The decimal rendering that \<open>fmt.Sprintf\<close> gives \<open>%d\<close> on a non-negative int.\<close>

fun sprintf_d :: "nat \<Rightarrow> string" where
  "sprintf_d n = (if n < 10 then [digit_char n] else sprintf_d (n div 10) @ [digit_char (n mod 10)])"

definition A4 :: real where
  "A4 = 440"

definition startFreq :: real where
  "startFreq = A4 * 2 powr (- 33 / 12)"

text \<open>The body of the loop of \<open>generatePianoNotes\<close> at counter \<open>i\<close>; \<open>noteIdx\<close> is below 12,
  the length of \<open>noteNames\<close>.\<close>

definition make_note :: "nat \<Rightarrow> Note" where
  "make_note i =
     (let freq = startFreq * 2 powr (real i / 12);
          octave = 2 + (i div 12);
          noteIdx = i mod 12;
          name = (noteNames ! noteIdx) @ sprintf_d octave
      in \<lparr>Name = name, Frequency = freq\<rparr>)"

text \<open>The loop \<open>for i := 0; i < 61; i++\<close>, writing \<open>notes[i]\<close>; the slice has 61 entries,
  so the write is in range.\<close>

function fill_notes :: "nat \<Rightarrow> Note list \<Rightarrow> Note list" where
  "fill_notes i notes = (if i < 61 then fill_notes (Suc i) (notes[i := make_note i]) else notes)"
  by pat_completeness auto
termination
  by (relation "measure (\<lambda>(i, notes). 61 - i)") auto

declare fill_notes.simps [simp del]

definition generatePianoNotes :: "Note list" where
  "generatePianoNotes = fill_notes 0 (replicate 61 \<lparr>Name = [], Frequency = 0\<rparr>)"

definition pianoNotes :: "Note list" where
  "pianoNotes = generatePianoNotes"

subsection \<open>Rounding to float64\<close>

text \<open>
  The nearest float64 of a real number, ties to the even significand: the IEEE 754 result
  of a \<open>float64\<close> operation whose exact value is \<open>x\<close>, and the value of a decimal constant
  such as \<open>0.05\<close>. \<open>float64_ulp x\<close> is the spacing of the float64 values around \<open>x > 0\<close>
  (52 fraction bits, least exponent -1022). Overflow is left out: every argument in this
  program stays below the largest float64 plus half a spacing.
\<close>

definition round_half_even :: "real \<Rightarrow> int" where
  "round_half_even r =
     (let f = \<lfloor>r\<rfloor> in
      if r - of_int f < 1 / 2 then f
      else if 1 / 2 < r - of_int f then f + 1
      else if even f then f else f + 1)"

definition float64_ulp :: "real \<Rightarrow> real" where
  "float64_ulp x = 2 powr (of_int (max \<lfloor>log 2 x\<rfloor> (- 1022)) - 52)"

definition round64_mag :: "real \<Rightarrow> real" where
  "round64_mag x =
     (if x = 0 then 0 else of_int (round_half_even (x / float64_ulp x)) * float64_ulp x)"

definition round64 :: "real \<Rightarrow> real" where
  "round64 x = (if x < 0 then - round64_mag (- x) else round64_mag x)"

text \<open>The float64 subtraction \<open>x - y\<close>.\<close>

definition fsub :: "real \<Rightarrow> real \<Rightarrow> real" where
  "fsub x y = round64 (x - y)"

subsection \<open>findClosestNote\<close>

text \<open>The loop over \<open>pianoNotes[1:]\<close>: a strictly smaller distance replaces the candidate.\<close>

fun closest_loop :: "real \<Rightarrow> Note \<Rightarrow> real \<Rightarrow> Note list \<Rightarrow> Note" where
  "closest_loop freq closest minDiff [] = closest"
| "closest_loop freq closest minDiff (note # rest) =
     (let diff = \<bar>fsub freq (Frequency note)\<bar>
      in if diff < minDiff then closest_loop freq note diff rest
         else closest_loop freq closest minDiff rest)"

text \<open>\<open>findClosestNote\<close> over a given table: \<open>table[0]\<close> panics on an empty table.\<close>

definition findClosestNote_in :: "Note list \<Rightarrow> real \<Rightarrow> error + Note" where
  "findClosestNote_in table freq =
     (case table of
        [] \<Rightarrow> Inl IndexOutOfRange
      | closest # rest \<Rightarrow>
          Inr (closest_loop freq closest \<bar>fsub freq (Frequency closest)\<bar> rest))"

definition findClosestNote :: "real \<Rightarrow> error + Note" where
  "findClosestNote freq = findClosestNote_in pianoNotes freq"

subsection \<open>processAudio\<close>

text \<open>The copy loop \<open>for i, sample := range in\<close>: \<open>samples[i]\<close> panics once \<open>i\<close> reaches the
  length of \<open>samples\<close>.\<close>

fun fill_samples :: "nat \<Rightarrow> real list \<Rightarrow> complex list \<Rightarrow> error + complex list" where
  "fill_samples i [] samples = Inr samples"
| "fill_samples i (sample # rest) samples =
     (if i < length samples then fill_samples (Suc i) rest (samples[i := Complex sample 0])
      else Inl IndexOutOfRange)"

text \<open>Modelled from the spec: \<open>fft.FFT\<close> belongs to the imported package go-dsp, whose
  source is not part of the repository; the spec (4.2) has it "apply a discrete Fourier
  transform over the full block". It is the forward transform
  \<open>X[k] = \<Sum>n<N. x[n] * exp (- 2 * pi * i * k * n / N)\<close>, without scaling, of the length of
  its input.\<close>

definition FFT :: "complex list \<Rightarrow> complex list" where
  "FFT x =
     map (\<lambda>k. \<Sum>n<length x. x ! n * cis (- (2 * pi * real k * real n / real (length x))))
       [0..<length x]"

text \<open>The loop computing \<open>magnitudes[i]\<close> from \<open>freqDomain[i]\<close> for \<open>i < framesPerBuffer/2\<close>.\<close>

function fill_magnitudes :: "nat \<Rightarrow> complex list \<Rightarrow> real list \<Rightarrow> error + real list" where
  "fill_magnitudes i freqDomain magnitudes =
     (if i < framesPerBuffer div 2 then
        (if i < length freqDomain \<and> i < length magnitudes then
           fill_magnitudes (Suc i) freqDomain
             (magnitudes[i := sqrt (Re (freqDomain ! i) * Re (freqDomain ! i)
                                   + Im (freqDomain ! i) * Im (freqDomain ! i))])
         else Inl IndexOutOfRange)
      else Inr magnitudes)"
  by pat_completeness auto
termination
  by (relation "measure (\<lambda>(i, freqDomain, magnitudes). framesPerBuffer div 2 - i)") auto

declare fill_magnitudes.simps [simp del]

text \<open>Lines 81 to 90: from the input block to the magnitude spectrum.\<close>

definition spectrum :: "real list \<Rightarrow> error + real list" where
  "spectrum inp =
     (case fill_samples 0 inp (replicate framesPerBuffer 0) of
        Inl e \<Rightarrow> Inl e
      | Inr samples \<Rightarrow>
          fill_magnitudes 0 (FFT samples) (replicate (framesPerBuffer div 2) 0))"

definition freqResolution :: real where
  "freqResolution = real sampleRate / real framesPerBuffer"

text \<open>Go's conversion \<open>int(x)\<close> of a float drops the fraction (rounds towards zero).\<close>

definition go_int :: "real \<Rightarrow> int" where
  "go_int x = (if 0 \<le> x then \<lfloor>x\<rfloor> else \<lceil>x\<rceil>)"

definition highFreqLimit :: int where
  "highFreqLimit = go_int (2200 / freqResolution)"

text \<open>The peak scan \<open>for i := 0; i < highFreqLimit && i < len(magnitudes); i++\<close>, from
  counter \<open>i\<close> with the current \<open>maxMag\<close> and \<open>maxIdx\<close>.\<close>

function peak_scan :: "nat \<Rightarrow> real list \<Rightarrow> real \<Rightarrow> nat \<Rightarrow> real \<times> nat" where
  "peak_scan i magnitudes maxMag maxIdx =
     (if int i < highFreqLimit \<and> i < length magnitudes then
        (if magnitudes ! i > maxMag then peak_scan (Suc i) magnitudes (magnitudes ! i) i
         else peak_scan (Suc i) magnitudes maxMag maxIdx)
      else (maxMag, maxIdx))"
  by pat_completeness auto
termination
  by (relation "measure (\<lambda>(i, magnitudes, maxMag, maxIdx). length magnitudes - i)") auto

declare peak_scan.simps [simp del]

text \<open>Lines 92 to 101: the scan starts with \<open>maxMag = 0.0\<close> and \<open>maxIdx = 0\<close>.\<close>

definition findPeak :: "real list \<Rightarrow> real \<times> nat" where
  "findPeak magnitudes = peak_scan 0 magnitudes 0 0"

text \<open>What the block reports: the arguments of the \<open>Printf\<close> call, that is the note
  (name and frequency), the raw frequency and the magnitude.\<close>

record DetectionResult =
  resNote :: Note
  rawFrequency :: real
  magnitude :: real

text \<open>Lines 103 to 118: nearest note, harmonic correction and the report. \<open>None\<close> is a
  block that prints nothing.\<close>

definition report :: "real \<Rightarrow> nat \<Rightarrow> error + DetectionResult option" where
  "report maxMag maxIdx =
     (let freq = real maxIdx * freqResolution in
      case findClosestNote freq of
        Inl e \<Rightarrow> Inl e
      | Inr closestNote \<Rightarrow>
          if maxMag > round64 0.05 then
            (if freq > 261 then
               (let fundamental = freq / 2 in
                case findClosestNote fundamental of
                  Inl e \<Rightarrow> Inl e
                | Inr nearFundamental \<Rightarrow>
                    if \<bar>fsub fundamental (Frequency nearFundamental)\<bar> < freqResolution then
                      (let adjustedFreq = fundamental in
                       case findClosestNote adjustedFreq of
                         Inl e \<Rightarrow> Inl e
                       | Inr corrected \<Rightarrow>
                           Inr (Some \<lparr>resNote = corrected, rawFrequency = freq, magnitude = maxMag\<rparr>))
                    else Inr (Some \<lparr>resNote = closestNote, rawFrequency = freq, magnitude = maxMag\<rparr>))
             else Inr (Some \<lparr>resNote = closestNote, rawFrequency = freq, magnitude = maxMag\<rparr>))
          else Inr None)"

definition processAudio :: "real list \<Rightarrow> error + DetectionResult option" where
  "processAudio inp =
     (case spectrum inp of
        Inl e \<Rightarrow> Inl e
      | Inr magnitudes \<Rightarrow>
          (case findPeak magnitudes of (maxMag, maxIdx) \<Rightarrow> report maxMag maxIdx))"

subsection \<open>Test signals\<close>

text \<open>The block of the pure-tone property (spec, section 8): \<open>framesPerBuffer\<close> samples of
  a sine wave of frequency \<open>f\<close> Hz, with amplitude \<open>amp\<close> and initial phase \<open>phase\<close>, sampled
  at \<open>sampleRate\<close>.\<close>

definition sine_block :: "real \<Rightarrow> real \<Rightarrow> real \<Rightarrow> real list" where
  "sine_block amp f phase =
     map (\<lambda>n. amp * sin (2 * pi * f * real n / real sampleRate + phase)) [0..<framesPerBuffer]"

section \<open>The note table\<close>

lemma fill_notes_eq:
  "i \<le> 61 \<Longrightarrow> length ns = 61 \<Longrightarrow>
   fill_notes i ns = take i ns @ map make_note [i..<61]"
proof (induction i ns rule: fill_notes.induct)
  case (1 i ns)
  show ?case
  proof (cases "i < 61")
    case True
    have "fill_notes i ns = fill_notes (Suc i) (ns[i := make_note i])"
      using True by (subst fill_notes.simps) simp
    also have "\<dots> = take (Suc i) (ns[i := make_note i]) @ map make_note [Suc i..<61]"
      using True "1.prems" by (intro "1.IH") auto
    also have "take (Suc i) (ns[i := make_note i]) = take i ns @ [make_note i]"
      using True "1.prems" by (simp add: take_Suc_conv_app_nth)
    also have "(take i ns @ [make_note i]) @ map make_note [Suc i..<61]
        = take i ns @ map make_note [i..<61]"
      using True by (simp add: upt_conv_Cons)
    finally show ?thesis .
  next
    case False
    with "1.prems" show ?thesis by (subst fill_notes.simps) simp
  qed
qed

lemma generatePianoNotes_map: "generatePianoNotes = map make_note [0..<61]"
  unfolding generatePianoNotes_def by (subst fill_notes_eq) simp_all

lemma pianoNotes_length: "length pianoNotes = 61"
  by (simp add: pianoNotes_def generatePianoNotes_map)

lemma pianoNotes_nth: "i < 61 \<Longrightarrow> pianoNotes ! i = make_note i"
  by (simp add: pianoNotes_def generatePianoNotes_map)

lemma make_note_Frequency: "Frequency (make_note i) = 440 * 2 powr ((real i - 33) / 12)"
proof -
  have "startFreq * 2 powr (real i / 12) = 440 * (2 powr (- 33 / 12) * 2 powr (real i / 12))"
    by (simp add: startFreq_def A4_def)
  also have "2 powr (- 33 / 12) * 2 powr (real i / 12) = (2::real) powr (- 33 / 12 + real i / 12)"
    by (simp only: powr_add)
  also have "- 33 / 12 + real i / 12 = (real i - 33) / 12"
    by (simp add: field_simps)
  finally show ?thesis by (simp add: make_note_def Let_def)
qed

lemma make_note_Name: "Name (make_note i) = noteNames ! (i mod 12) @ sprintf_d (2 + i div 12)"
  by (simp add: make_note_def Let_def)

lemma Frequency_strict_mono: "i < j \<Longrightarrow> Frequency (make_note i) < Frequency (make_note j)"
  by (simp add: make_note_Frequency)

section \<open>Rounding to float64\<close>

lemma round_half_even_error: "\<bar>of_int (round_half_even r) - r\<bar> \<le> 1 / 2"
proof -
  define d where "d = r - of_int \<lfloor>r\<rfloor>"
  have d: "0 \<le> d" "d < 1" unfolding d_def by linarith+
  have r: "r = of_int \<lfloor>r\<rfloor> + d" by (simp add: d_def)
  have "\<bar>real_of_int (if d < 1 / 2 then F else if 1 / 2 < d then F + 1
                          else if even F then F else F + 1) - (of_int F + d)\<bar> \<le> 1 / 2"
    for F :: int
    using d by (auto simp: abs_if)
  from this[of "\<lfloor>r\<rfloor>"] show ?thesis
    unfolding round_half_even_def Let_def d_def[symmetric] r[symmetric] .
qed

lemma round_half_even_nonneg: "0 \<le> r \<Longrightarrow> 0 \<le> round_half_even r"
  by (auto simp: round_half_even_def Let_def)

lemma float64_ulp_pos: "0 < float64_ulp x"
  by (simp add: float64_ulp_def)

lemma float64_ulp_small:
  assumes "0 < x" and "x < 4096"
  shows "float64_ulp x \<le> 1 / 2 ^ 41"
proof -
  have "x < 2 powr 12" using assms(2) by simp
  then have "log 2 x < 12" using assms(1) by (simp add: log_less_iff)
  then have "\<lfloor>log 2 x\<rfloor> < 12" by (simp add: floor_less_iff)
  then have "max \<lfloor>log 2 x\<rfloor> (- 1022) \<le> 11" by simp
  then have "of_int (max \<lfloor>log 2 x\<rfloor> (- 1022)) - 52 \<le> (- 41 :: real)" by linarith
  then have "float64_ulp x \<le> 2 powr (- 41)"
    unfolding float64_ulp_def by (intro powr_mono) simp_all
  also have "2 powr (- 41) = (1 / 2 ^ 41 :: real)"
    by (simp add: powr_minus_divide powr_realpow[symmetric])
  finally show ?thesis .
qed

lemma round64_mag_nonneg: "0 \<le> x \<Longrightarrow> 0 \<le> round64_mag x"
  using float64_ulp_pos[of x] round_half_even_nonneg[of "x / float64_ulp x"]
  by (simp add: round64_mag_def)

lemma round64_mag_error:
  assumes "0 \<le> x" and "x < 4096"
  shows "\<bar>round64_mag x - x\<bar> \<le> 1 / 2 ^ 42"
proof (cases "x = 0")
  case True
  then show ?thesis by (simp add: round64_mag_def)
next
  case False
  define u where "u = float64_ulp x"
  have u0: "0 < u" unfolding u_def by (rule float64_ulp_pos)
  have u1: "u \<le> 1 / 2 ^ 41" unfolding u_def using assms False by (intro float64_ulp_small) simp_all
  have "round64_mag x - x = (of_int (round_half_even (x / u)) - x / u) * u"
    using False u0 by (simp add: round64_mag_def u_def algebra_simps)
  then have "\<bar>round64_mag x - x\<bar> = \<bar>of_int (round_half_even (x / u)) - x / u\<bar> * u"
    using u0 by (simp add: abs_mult)
  also have "\<dots> \<le> 1 / 2 * (1 / 2 ^ 41)"
    using round_half_even_error[of "x / u"] u0 u1 by (intro mult_mono) simp_all
  finally show ?thesis by simp
qed

lemma abs_round64: "\<bar>round64 x\<bar> = round64_mag \<bar>x\<bar>"
proof (cases "x < 0")
  case True
  with round64_mag_nonneg[of "- x"] show ?thesis by (simp add: round64_def)
next
  case False
  with round64_mag_nonneg[of x] show ?thesis by (simp add: round64_def)
qed

lemma round64_zero: "round64 0 = 0"
  by (simp add: round64_def round64_mag_def)

lemma abs_fsub_commute: "\<bar>fsub x y\<bar> = \<bar>fsub y x\<bar>"
  by (simp add: fsub_def abs_round64 abs_minus_commute)

lemma abs_round64_near:
  assumes "\<bar>x\<bar> < 4096"
  shows "\<bar>\<bar>round64 x\<bar> - \<bar>x\<bar>\<bar> \<le> 1 / 2 ^ 42"
  unfolding abs_round64 using assms by (intro round64_mag_error) simp_all

lemma gap_survives:
  fixes A B X Y e g :: real
  assumes "\<bar>A - X\<bar> \<le> e" and "\<bar>B - Y\<bar> \<le> e" and "X + g \<le> Y" and "2 * e < g"
  shows "A < B"
  using assms by linarith

lemma abs_round64_gap:
  assumes "\<bar>x\<bar> + 1 / 1000 \<le> \<bar>y\<bar>" and "\<bar>y\<bar> < 4096"
  shows "\<bar>round64 x\<bar> < \<bar>round64 y\<bar>"
proof -
  have "\<bar>x\<bar> < 4096" using assms by simp
  from abs_round64_near[OF this] abs_round64_near[OF assms(2)] assms(1)
  show ?thesis by (rule gap_survives) simp
qed

lemma float64_twentieth: "round64 (1 / 20) = 3602879701896397 / 2 ^ 56"
proof -
  have "2 powr (- 5) \<le> (1 / 20 :: real)" "(1 / 20 :: real) < 2 powr (- 4)"
    by (simp_all add: powr_minus_divide)
  then have "- 5 \<le> log 2 (1 / 20)" "log 2 (1 / 20) < - 4"
    by (simp_all add: le_log_iff log_less_iff del: log_divide)
  then have "\<lfloor>log 2 (1 / 20 :: real)\<rfloor> = - 5" by linarith
  then have u: "float64_ulp (1 / 20) = 1 / 2 ^ 57"
    by (simp add: float64_ulp_def powr_minus_divide powr_realpow[symmetric])
  have "\<lfloor>(2 ^ 57 / 20 :: real)\<rfloor> = 7205759403792793"
    by (rule floor_unique) simp_all
  then have "round_half_even (1 / 20 / (1 / 2 ^ 57)) = 7205759403792794"
    by (simp add: round_half_even_def Let_def)
  then show ?thesis by (simp add: round64_def round64_mag_def u)
qed

lemma float64_0_05: "round64 0.05 = 3602879701896397 / 2 ^ 56"
  using float64_twentieth by simp

section \<open>Nearest note\<close>

lemma closest_loop_mem: "closest_loop freq c d rest \<in> insert c (set rest)"
  by (induction rest arbitrary: c d) (auto simp: Let_def)

lemma closest_loop_keep:
  "\<forall>y\<in>set rest. d \<le> \<bar>fsub freq (Frequency y)\<bar> \<Longrightarrow> closest_loop freq c d rest = c"
  by (induction rest arbitrary: c d) (auto simp: Let_def)

lemma closest_loop_first_min:
  assumes "\<forall>y\<in>set pre. \<bar>fsub freq (Frequency x)\<bar> < \<bar>fsub freq (Frequency y)\<bar>"
    and "\<bar>fsub freq (Frequency x)\<bar> < d"
    and "\<forall>y\<in>set post. \<bar>fsub freq (Frequency x)\<bar> \<le> \<bar>fsub freq (Frequency y)\<bar>"
  shows "closest_loop freq c d (pre @ x # post) = x"
  using assms
proof (induction pre arbitrary: c d)
  case Nil
  then show ?case by (simp add: closest_loop_keep)
next
  case (Cons p pre)
  then show ?case by (auto simp: Let_def)
qed

lemma findClosestNote_in_first_min:
  assumes k: "k < length table"
    and before: "\<forall>j<k. \<bar>fsub freq (Frequency (table ! k))\<bar> < \<bar>fsub freq (Frequency (table ! j))\<bar>"
    and after: "\<forall>j. k < j \<and> j < length table \<longrightarrow>
        \<bar>fsub freq (Frequency (table ! k))\<bar> \<le> \<bar>fsub freq (Frequency (table ! j))\<bar>"
  shows "findClosestNote_in table freq = Inr (table ! k)"
proof (cases k)
  case 0
  then obtain x rest where t: "table = x # rest" using k by (cases table) auto
  have "\<forall>y\<in>set rest. \<bar>fsub freq (Frequency x)\<bar> \<le> \<bar>fsub freq (Frequency y)\<bar>"
  proof
    fix y assume "y \<in> set rest"
    then obtain j where "j < length rest" "rest ! j = y" by (auto simp: in_set_conv_nth)
    then show "\<bar>fsub freq (Frequency x)\<bar> \<le> \<bar>fsub freq (Frequency y)\<bar>"
      using after[rule_format, of "Suc j"] 0 t by auto
  qed
  then show ?thesis using 0 t by (simp add: findClosestNote_in_def closest_loop_keep)
next
  case (Suc k')
  then obtain c rest where t: "table = c # rest" using k by (cases table) auto
  have k': "k' < length rest" using k Suc t by simp
  define x where "x = rest ! k'"
  have x: "table ! k = x" using Suc t x_def by simp
  have rest: "rest = take k' rest @ x # drop (Suc k') rest"
    using k' x_def by (simp add: id_take_nth_drop)
  have pre: "\<forall>y\<in>set (take k' rest). \<bar>fsub freq (Frequency x)\<bar> < \<bar>fsub freq (Frequency y)\<bar>"
  proof
    fix y assume "y \<in> set (take k' rest)"
    then obtain j where j: "j < k'" "rest ! j = y"
      using k' by (auto simp: in_set_conv_nth)
    show "\<bar>fsub freq (Frequency x)\<bar> < \<bar>fsub freq (Frequency y)\<bar>"
      using before[rule_format, of "Suc j"] j Suc t x by auto
  qed
  have post: "\<forall>y\<in>set (drop (Suc k') rest). \<bar>fsub freq (Frequency x)\<bar> \<le> \<bar>fsub freq (Frequency y)\<bar>"
  proof
    fix y assume "y \<in> set (drop (Suc k') rest)"
    then obtain j where j: "j < length rest - Suc k'" "rest ! (Suc k' + j) = y"
      by (auto simp: in_set_conv_nth)
    show "\<bar>fsub freq (Frequency x)\<bar> \<le> \<bar>fsub freq (Frequency y)\<bar>"
      using after[rule_format, of "Suc (Suc k' + j)"] j Suc t x by auto
  qed
  have first: "\<bar>fsub freq (Frequency x)\<bar> < \<bar>fsub freq (Frequency c)\<bar>"
    using before[rule_format, of 0] Suc t x by auto
  have "closest_loop freq c \<bar>fsub freq (Frequency c)\<bar> (take k' rest @ x # drop (Suc k') rest) = x"
    by (rule closest_loop_first_min[OF pre first post])
  then show ?thesis using t x rest by (simp add: findClosestNote_in_def)
qed

lemma findClosestNote_first_min:
  assumes "k < 61"
    and "\<forall>j<k. \<bar>fsub freq (Frequency (make_note k))\<bar> < \<bar>fsub freq (Frequency (make_note j))\<bar>"
    and "\<forall>j. k < j \<and> j < 61 \<longrightarrow>
           \<bar>fsub freq (Frequency (make_note k))\<bar> \<le> \<bar>fsub freq (Frequency (make_note j))\<bar>"
  shows "findClosestNote freq = Inr (make_note k)"
proof -
  have "findClosestNote_in pianoNotes freq = Inr (pianoNotes ! k)"
    using assms by (intro findClosestNote_in_first_min) (auto simp: pianoNotes_length pianoNotes_nth)
  then show ?thesis using assms(1) by (simp add: findClosestNote_def pianoNotes_nth)
qed

lemma findClosestNote_in_total:
  assumes "table \<noteq> []"
  shows "\<exists>n\<in>set table. findClosestNote_in table freq = Inr n"
proof -
  obtain c rest where t: "table = c # rest"
    using assms by (cases table) auto
  show ?thesis
    using closest_loop_mem[of freq c "\<bar>fsub freq (Frequency c)\<bar>" rest]
    by (simp add: findClosestNote_in_def t)
qed

lemma findClosestNote_total: "\<exists>n\<in>set pianoNotes. findClosestNote freq = Inr n"
  unfolding findClosestNote_def using pianoNotes_length
  by (intro findClosestNote_in_total) auto

subsection \<open>Tables close to the equal-tempered one\<close>

lemma semitone_lower: "(5297 / 5000 :: real) < 2 powr (1 / 12)"
proof (rule ccontr)
  assume "\<not> (5297 / 5000 :: real) < 2 powr (1 / 12)"
  then have le: "2 powr (1 / 12) \<le> (5297 / 5000 :: real)" by simp
  have "(2 powr (1 / 12)) ^ 12 = (2::real) powr (1 / 12 * real (12::nat))"
    by (simp only: powr_powr powr_realpow[symmetric] powr_gt_zero)
  then have "(2 powr (1 / 12)) ^ 12 = (2::real)" by simp
  moreover have "(2 powr (1 / 12)) ^ 12 \<le> (5297 / 5000 :: real) ^ 12"
    using le by (intro power_mono) simp_all
  moreover have "(5297 / 5000 :: real) ^ 12 < 2" by (simp add: power_divide)
  ultimately show False by simp
qed

lemma ideal_low: "55 \<le> 440 * 2 powr ((real i - 33) / 12)"
proof -
  have "(2::real) powr (- 3) \<le> 2 powr ((real i - 33) / 12)"
    by (intro powr_mono) simp_all
  moreover have "(2::real) powr (- 3) = 1 / 8"
    by (simp add: powr_minus_divide powr_realpow[symmetric])
  ultimately show ?thesis by simp
qed

lemma ideal_high:
  assumes "i < 61"
  shows "440 * 2 powr ((real i - 33) / 12) \<le> 3520"
proof -
  have "(2::real) powr ((real i - 33) / 12) \<le> 2 powr 3"
    using assms by (intro powr_mono) simp_all
  moreover have "(2::real) powr 3 = 8"
    by (simp add: powr_realpow[symmetric])
  ultimately show ?thesis by simp
qed

lemma ideal_step:
  assumes "i < j"
  shows "440 * 2 powr ((real i - 33) / 12) + 3 \<le> 440 * 2 powr ((real j - 33) / 12)"
proof -
  define e where "e = 440 * 2 powr ((real i - 33) / 12)"
  have e: "55 \<le> e" unfolding e_def by (rule ideal_low)
  have "e + 3 \<le> e * (5297 / 5000)" using e by simp
  also have "\<dots> \<le> e * 2 powr (1 / 12)"
    using e semitone_lower by (intro mult_left_mono) simp_all
  also have "\<dots> = 440 * 2 powr ((real i - 33) / 12 + 1 / 12)"
    unfolding e_def by (simp only: powr_add mult.assoc)
  also have "\<dots> \<le> 440 * 2 powr ((real j - 33) / 12)"
    using assms by (intro mult_left_mono powr_mono) (simp_all add: field_simps)
  finally show ?thesis unfolding e_def .
qed

lemma near_table_gap:
  assumes near: "\<forall>i<61. \<bar>Frequency (table ! i) - 440 * 2 powr ((real i - 33) / 12)\<bar> \<le> 1 / 1000"
    and "i < j" and "j < 61"
  shows "Frequency (table ! i) + 2 \<le> Frequency (table ! j)"
proof -
  have "i < 61" using assms by simp
  with near have "\<bar>Frequency (table ! i) - 440 * 2 powr ((real i - 33) / 12)\<bar> \<le> 1 / 1000"
    by blast
  moreover from near \<open>j < 61\<close>
  have "\<bar>Frequency (table ! j) - 440 * 2 powr ((real j - 33) / 12)\<bar> \<le> 1 / 1000"
    by blast
  ultimately show ?thesis using ideal_step[OF \<open>i < j\<close>] by (simp add: abs_if split: if_splits)
qed

lemma near_table_range:
  assumes near: "\<forall>i<61. \<bar>Frequency (table ! i) - 440 * 2 powr ((real i - 33) / 12)\<bar> \<le> 1 / 1000"
    and "i < 61"
  shows "54 \<le> Frequency (table ! i)" and "Frequency (table ! i) \<le> 3521"
proof -
  from near \<open>i < 61\<close>
  have n: "\<bar>Frequency (table ! i) - 440 * 2 powr ((real i - 33) / 12)\<bar> \<le> 1 / 1000"
    by blast
  show "54 \<le> Frequency (table ! i)"
    using n ideal_low[of i] by (simp add: abs_if split: if_splits)
  show "Frequency (table ! i) \<le> 3521"
    using n ideal_high[OF \<open>i < 61\<close>] by (simp add: abs_if split: if_splits)
qed

lemma findClosestNote_in_exact:
  assumes len: "length table = 61"
    and near: "\<forall>i<61. \<bar>Frequency (table ! i) - 440 * 2 powr ((real i - 33) / 12)\<bar> \<le> 1 / 1000"
    and k: "k < 61"
  shows "findClosestNote_in table (Frequency (table ! k)) = Inr (table ! k)"
proof -
  have far: "\<bar>fsub (Frequency (table ! k)) (Frequency (table ! k))\<bar>
           < \<bar>fsub (Frequency (table ! k)) (Frequency (table ! j))\<bar>" if "j < 61" "j \<noteq> k" for j
  proof -
    have "2 \<le> \<bar>Frequency (table ! k) - Frequency (table ! j)\<bar>"
    proof (cases "j < k")
      case True
      from near_table_gap[OF near this k] show ?thesis by simp
    next
      case False
      with that have "k < j" by simp
      from near_table_gap[OF near this that(1)] show ?thesis by simp
    qed
    moreover have "\<bar>Frequency (table ! k) - Frequency (table ! j)\<bar> < 4096"
      using near_table_range[OF near k] near_table_range[OF near that(1)] by (simp add: abs_if)
    ultimately show ?thesis
      unfolding fsub_def by (intro abs_round64_gap) simp_all
  qed
  show ?thesis
  proof (rule findClosestNote_in_first_min; (intro allI impI)?)
    show "k < length table" using k len by simp
  next
    fix j assume "j < k"
    with k far[of j] show "\<bar>fsub (Frequency (table ! k)) (Frequency (table ! k))\<bar>
           < \<bar>fsub (Frequency (table ! k)) (Frequency (table ! j))\<bar>" by simp
  next
    fix j assume "k < j \<and> j < length table"
    with len far[of j] show "\<bar>fsub (Frequency (table ! k)) (Frequency (table ! k))\<bar>
           \<le> \<bar>fsub (Frequency (table ! k)) (Frequency (table ! j))\<bar>" by simp
  qed
qed

lemma findClosestNote_in_halfway:
  assumes len: "length table = 61"
    and near: "\<forall>i<61. \<bar>Frequency (table ! i) - 440 * 2 powr ((real i - 33) / 12)\<bar> \<le> 1 / 1000"
    and k: "k < 60"
  shows "findClosestNote_in table ((Frequency (table ! k) + Frequency (table ! (k + 1))) / 2)
         = Inr (table ! k)"
proof -
  define a where "a = Frequency (table ! k)"
  define b where "b = Frequency (table ! (k + 1))"
  define m where "m = (a + b) / 2"
  have k1: "k + 1 < 61" and k0: "k < 61" using k by simp_all
  have ab: "a + 2 \<le> b" unfolding a_def b_def by (rule near_table_gap[OF near _ k1]) simp
  have ra: "54 \<le> a" unfolding a_def by (rule near_table_range(1)[OF near k0])
  have rb: "b \<le> 3521" unfolding b_def by (rule near_table_range(2)[OF near k1])
  have tie: "\<bar>fsub m a\<bar> = \<bar>fsub m b\<bar>"
  proof -
    have e: "\<bar>m - a\<bar> = \<bar>m - b\<bar>"
      unfolding m_def using ab by (simp add: abs_if field_simps)
    show ?thesis unfolding fsub_def abs_round64 e ..
  qed
  have before: "\<bar>fsub m a\<bar> < \<bar>fsub m (Frequency (table ! j))\<bar>" if "j < k" for j
  proof -
    have "Frequency (table ! j) + 2 \<le> a"
      unfolding a_def by (rule near_table_gap[OF near that k0])
    moreover have "54 \<le> Frequency (table ! j)"
      using that k0 by (intro near_table_range(1)[OF near]) simp
    ultimately show ?thesis
      unfolding fsub_def using ab ra rb
      by (intro abs_round64_gap) (simp_all add: m_def abs_if field_simps)
  qed
  have after: "\<bar>fsub m a\<bar> \<le> \<bar>fsub m (Frequency (table ! j))\<bar>" if "k < j" "j < 61" for j
  proof (cases "j = k + 1")
    case True
    then show ?thesis using tie by (simp add: b_def)
  next
    case False
    with that have "k + 1 < j" by simp
    from near_table_gap[OF near this that(2)] have "b + 2 \<le> Frequency (table ! j)"
      by (simp add: b_def)
    moreover have "Frequency (table ! j) \<le> 3521"
      by (rule near_table_range(2)[OF near that(2)])
    ultimately have "\<bar>fsub m a\<bar> < \<bar>fsub m (Frequency (table ! j))\<bar>"
      unfolding fsub_def using ab ra rb
      by (intro abs_round64_gap) (simp_all add: m_def abs_if field_simps)
    then show ?thesis by simp
  qed
  have "findClosestNote_in table m = Inr (table ! k)"
  proof (rule findClosestNote_in_first_min; (intro allI impI)?)
    show "k < length table" using k len by simp
  next
    fix j assume "j < k"
    from before[OF this] show "\<bar>fsub m (Frequency (table ! k))\<bar> < \<bar>fsub m (Frequency (table ! j))\<bar>"
      by (simp add: a_def)
  next
    fix j assume "k < j \<and> j < length table"
    with len after[of j] show "\<bar>fsub m (Frequency (table ! k))\<bar> \<le> \<bar>fsub m (Frequency (table ! j))\<bar>"
      by (simp add: a_def)
  qed
  then show ?thesis by (simp add: m_def a_def b_def)
qed

lemma pianoNotes_near:
  "\<forall>i<61. \<bar>Frequency (pianoNotes ! i) - 440 * 2 powr ((real i - 33) / 12)\<bar> \<le> 1 / 1000"
  by (simp add: pianoNotes_nth make_note_Frequency)

text \<open>The table whose frequencies are the float64 values nearest to the exact ones is such
  a table.\<close>

lemma rounded_table_near:
  "\<forall>i<61. \<bar>Frequency (map (\<lambda>n. n\<lparr>Frequency := round64 (Frequency n)\<rparr>) pianoNotes ! i)
            - 440 * 2 powr ((real i - 33) / 12)\<bar> \<le> 1 / 1000"
proof (intro allI impI)
  fix i :: nat assume i: "i < 61"
  define e where "e = 440 * 2 powr ((real i - 33) / 12)"
  have "55 \<le> e" "e \<le> 3520" unfolding e_def using i by (simp_all add: ideal_low ideal_high)
  then have "0 \<le> e" "e < 4096" by simp_all
  from round64_mag_error[OF this] \<open>0 \<le> e\<close> have "\<bar>round64 e - e\<bar> \<le> 1 / 2 ^ 42"
    by (simp add: round64_def)
  also have "\<dots> \<le> (1 / 1000 :: real)" by simp
  finally show "\<bar>Frequency (map (\<lambda>n. n\<lparr>Frequency := round64 (Frequency n)\<rparr>) pianoNotes ! i)
            - 440 * 2 powr ((real i - 33) / 12)\<bar> \<le> 1 / 1000"
    using i by (simp add: pianoNotes_length pianoNotes_nth make_note_Frequency e_def)
qed

section \<open>From the block to the spectrum\<close>

lemma fill_samples_ok:
  "i + length inp \<le> length samples \<Longrightarrow>
   fill_samples i inp samples =
     Inr (take i samples @ map (\<lambda>s. Complex s 0) inp @ drop (i + length inp) samples)"
proof (induction inp arbitrary: i samples)
  case Nil
  then show ?case by simp
next
  case (Cons s rest)
  have i: "i < length samples" using Cons.prems by simp
  have "fill_samples i (s # rest) samples = fill_samples (Suc i) rest (samples[i := Complex s 0])"
    using i by simp
  also have "\<dots> = Inr (take (Suc i) (samples[i := Complex s 0]) @ map (\<lambda>s. Complex s 0) rest
                  @ drop (Suc i + length rest) (samples[i := Complex s 0]))"
    using Cons.prems by (intro Cons.IH) simp
  also have "take (Suc i) (samples[i := Complex s 0]) = take i samples @ [Complex s 0]"
    using i by (simp add: take_Suc_conv_app_nth)
  also have "drop (Suc i + length rest) (samples[i := Complex s 0]) = drop (i + length (s # rest)) samples"
    by simp
  finally show ?case by simp
qed

lemma fill_samples_panic:
  "i \<le> length samples \<Longrightarrow> length samples < i + length inp \<Longrightarrow>
   fill_samples i inp samples = Inl IndexOutOfRange"
proof (induction inp arbitrary: i samples)
  case Nil
  then show ?case by simp
next
  case (Cons s rest)
  then show ?case by (cases "i < length samples") auto
qed

lemma samples_of_block:
  "length inp \<le> framesPerBuffer \<Longrightarrow>
   fill_samples 0 inp (replicate framesPerBuffer 0) =
     Inr (map (\<lambda>s. Complex s 0) inp @ replicate (framesPerBuffer - length inp) 0)"
  by (subst fill_samples_ok) simp_all

lemma FFT_length: "length (FFT x) = length x"
  by (simp add: FFT_def)

lemma FFT_nth:
  "k < length x \<Longrightarrow>
   FFT x ! k = (\<Sum>n<length x. x ! n * cis (- (2 * pi * real k * real n / real (length x))))"
  by (simp add: FFT_def)

lemma fill_magnitudes_ok:
  "framesPerBuffer div 2 \<le> length freqDomain \<Longrightarrow> length ms = framesPerBuffer div 2 \<Longrightarrow>
   i \<le> framesPerBuffer div 2 \<Longrightarrow>
   fill_magnitudes i freqDomain ms =
     Inr (take i ms @ map (\<lambda>j. cmod (freqDomain ! j)) [i..<framesPerBuffer div 2])"
proof (induction i freqDomain ms rule: fill_magnitudes.induct)
  case (1 i freqDomain ms)
  let ?v = "sqrt (Re (freqDomain ! i) * Re (freqDomain ! i) + Im (freqDomain ! i) * Im (freqDomain ! i))"
  show ?case
  proof (cases "i < framesPerBuffer div 2")
    case True
    have v: "?v = cmod (freqDomain ! i)"
      by (simp add: cmod_def power2_eq_square)
    have "fill_magnitudes i freqDomain ms = fill_magnitudes (Suc i) freqDomain (ms[i := ?v])"
      using True "1.prems" by (subst fill_magnitudes.simps) simp
    also have "\<dots> = Inr (take (Suc i) (ms[i := ?v])
                    @ map (\<lambda>j. cmod (freqDomain ! j)) [Suc i..<framesPerBuffer div 2])"
      using True "1.prems" by (intro "1.IH") auto
    also have "take (Suc i) (ms[i := ?v]) = take i ms @ [cmod (freqDomain ! i)]"
      using True "1.prems" v by (simp add: take_Suc_conv_app_nth)
    finally show ?thesis using True by (simp add: upt_conv_Cons)
  next
    case False
    with "1.prems" show ?thesis by (subst fill_magnitudes.simps) simp
  qed
qed

lemma spectrum_ok:
  assumes "length inp \<le> framesPerBuffer"
  shows "spectrum inp =
    Inr (map (\<lambda>j. cmod (FFT (map (\<lambda>s. Complex s 0) inp @ replicate (framesPerBuffer - length inp) 0) ! j))
          [0..<framesPerBuffer div 2])"
  using assms unfolding spectrum_def
  by (simp add: samples_of_block fill_magnitudes_ok FFT_length)

lemma spectrum_panic:
  assumes "framesPerBuffer < length inp"
  shows "spectrum inp = Inl IndexOutOfRange"
  using assms unfolding spectrum_def by (simp add: fill_samples_panic)

section \<open>The peak scan\<close>

lemma highFreqLimit_eq: "highFreqLimit = 102"
  by (simp add: highFreqLimit_def go_int_def freqResolution_def sampleRate_def framesPerBuffer_def)

lemma from_bin_on:
  fixes i n :: nat
  assumes "P i" and "\<forall>j. Suc i \<le> j \<and> j < n \<longrightarrow> P j"
  shows "\<forall>j. i \<le> j \<and> j < n \<longrightarrow> P j"
proof (intro allI impI)
  fix j assume j: "i \<le> j \<and> j < n"
  show "P j"
  proof (cases "j = i")
    case True
    with assms(1) show ?thesis by simp
  next
    case False
    with j have "Suc i \<le> j \<and> j < n" by auto
    with assms(2) show ?thesis by blast
  qed
qed

lemma peak_scan_char:
  assumes "peak_scan i ms m0 k0 = (M, k)"
  shows "(M = m0 \<and> k = k0 \<and> (\<forall>j. i \<le> j \<and> j < min 102 (length ms) \<longrightarrow> ms ! j \<le> m0))
       \<or> (i \<le> k \<and> k < min 102 (length ms) \<and> M = ms ! k \<and> m0 < M
           \<and> (\<forall>j. i \<le> j \<and> j < min 102 (length ms) \<longrightarrow> ms ! j \<le> M)
           \<and> (\<forall>j. i \<le> j \<and> j < k \<longrightarrow> ms ! j < M))"
  using assms
proof (induction i ms m0 k0 rule: peak_scan.induct)
  case (1 i ms m0 k0)
  let ?n = "min 102 (length ms)"
  show ?case
  proof (cases "i < ?n")
    case False
    then have "peak_scan i ms m0 k0 = (m0, k0)"
      by (subst peak_scan.simps) (auto simp: highFreqLimit_eq)
    with "1.prems" False show ?thesis by auto
  next
    case inrange: True
    then have cond: "int i < highFreqLimit \<and> i < length ms"
      by (simp add: highFreqLimit_eq)
    show ?thesis
    proof (cases "ms ! i > m0")
      case True
      have step: "peak_scan i ms m0 k0 = peak_scan (Suc i) ms (ms ! i) i"
        using cond True by (subst peak_scan.simps) simp
      from "1.IH"(1)[OF cond True] "1.prems" step
      consider (keep) "M = ms ! i" "k = i" "\<forall>j. Suc i \<le> j \<and> j < ?n \<longrightarrow> ms ! j \<le> ms ! i"
        | (later) "Suc i \<le> k" "k < ?n" "M = ms ! k" "ms ! i < M"
            "\<forall>j. Suc i \<le> j \<and> j < ?n \<longrightarrow> ms ! j \<le> M" "\<forall>j. Suc i \<le> j \<and> j < k \<longrightarrow> ms ! j < M"
        by auto
      then show ?thesis
      proof cases
        case keep
        have "\<forall>j. i \<le> j \<and> j < ?n \<longrightarrow> ms ! j \<le> M"
          by (rule from_bin_on) (use keep in simp_all)
        with keep True inrange show ?thesis by auto
      next
        case later
        have "\<forall>j. i \<le> j \<and> j < ?n \<longrightarrow> ms ! j \<le> M"
          by (rule from_bin_on) (use later in simp_all)
        moreover have "\<forall>j. i \<le> j \<and> j < k \<longrightarrow> ms ! j < M"
          by (rule from_bin_on) (use later in simp_all)
        ultimately show ?thesis using later True by auto
      qed
    next
      case False
      have step: "peak_scan i ms m0 k0 = peak_scan (Suc i) ms m0 k0"
        using cond False by (subst peak_scan.simps) simp
      from "1.IH"(2)[OF cond False] "1.prems" step
      consider (keep) "M = m0" "k = k0" "\<forall>j. Suc i \<le> j \<and> j < ?n \<longrightarrow> ms ! j \<le> m0"
        | (later) "Suc i \<le> k" "k < ?n" "M = ms ! k" "m0 < M"
            "\<forall>j. Suc i \<le> j \<and> j < ?n \<longrightarrow> ms ! j \<le> M" "\<forall>j. Suc i \<le> j \<and> j < k \<longrightarrow> ms ! j < M"
        by auto
      then show ?thesis
      proof cases
        case keep
        have "\<forall>j. i \<le> j \<and> j < ?n \<longrightarrow> ms ! j \<le> m0"
          by (rule from_bin_on) (use keep False in simp_all)
        with keep show ?thesis by auto
      next
        case later
        have "\<forall>j. i \<le> j \<and> j < ?n \<longrightarrow> ms ! j \<le> M"
          by (rule from_bin_on) (use later False in simp_all)
        moreover have "\<forall>j. i \<le> j \<and> j < k \<longrightarrow> ms ! j < M"
          by (rule from_bin_on) (use later False in simp_all)
        ultimately show ?thesis using later by auto
      qed
    qed
  qed
qed

lemma findPeak_char:
  assumes n: "0 < min 102 (length ms)"
    and nonneg: "\<forall>j<min 102 (length ms). 0 \<le> ms ! j"
  shows "\<exists>k<min 102 (length ms). findPeak ms = (ms ! k, k)
           \<and> (\<forall>j<min 102 (length ms). ms ! j \<le> ms ! k) \<and> (\<forall>j<k. ms ! j < ms ! k)"
proof -
  obtain M k where r: "peak_scan 0 ms 0 0 = (M, k)" by (cases "peak_scan 0 ms 0 0")
  from peak_scan_char[OF r]
  consider (silent) "M = 0" "k = 0" "\<forall>j<min 102 (length ms). ms ! j \<le> 0"
    | (peak) "k < min 102 (length ms)" "M = ms ! k" "\<forall>j<min 102 (length ms). ms ! j \<le> M"
        "\<forall>j<k. ms ! j < M"
    by auto
  then show ?thesis
  proof cases
    case silent
    with nonneg have z: "\<forall>j<min 102 (length ms). ms ! j = 0" by (auto intro: antisym)
    with n have "ms ! 0 = 0" by simp
    with silent z n r show ?thesis by (auto simp: findPeak_def)
  next
    case peak
    with r show ?thesis by (auto simp: findPeak_def)
  qed
qed

lemma findPeak_unique:
  assumes k: "k < min 102 (length ms)"
    and nonneg: "\<forall>j<min 102 (length ms). 0 \<le> ms ! j"
    and top: "\<forall>j<min 102 (length ms). ms ! j \<le> ms ! k"
    and first: "\<forall>j<k. ms ! j < ms ! k"
  shows "findPeak ms = (ms ! k, k)"
proof -
  from k have "0 < min 102 (length ms)" by (cases ms) auto
  from findPeak_char[OF this nonneg] obtain k' where k':
    "k' < min 102 (length ms)" "findPeak ms = (ms ! k', k')"
    "\<forall>j<min 102 (length ms). ms ! j \<le> ms ! k'" "\<forall>j<k'. ms ! j < ms ! k'"
    by blast
  have "k' = k"
  proof (rule ccontr)
    assume "k' \<noteq> k"
    then consider "k' < k" | "k < k'" by linarith
    then show False
    proof cases
      case 1
      with first have "ms ! k' < ms ! k" by simp
      moreover from k'(3) k have "ms ! k \<le> ms ! k'" by simp
      ultimately show False by simp
    next
      case 2
      with k'(4) have "ms ! k < ms ! k'" by simp
      moreover from top k'(1) have "ms ! k' \<le> ms ! k" by simp
      ultimately show False by simp
    qed
  qed
  with k'(2) show ?thesis by simp
qed

section \<open>Silent and impulse blocks, the report\<close>

lemma FFT_impulse:
  assumes "k < Suc n"
  shows "FFT (c # replicate n 0) ! k = c"
proof -
  have "FFT (c # replicate n 0) ! k
      = (\<Sum>m<Suc n. (c # replicate n 0) ! m * cis (- (2 * pi * real k * real m / real (Suc n))))"
    using assms by (simp add: FFT_nth)
  also have "\<dots> = c + (\<Sum>m<n. (c # replicate n 0) ! Suc m * cis (- (2 * pi * real k * real (Suc m) / real (Suc n))))"
    by (subst sum.lessThan_Suc_shift) simp
  also have "(\<Sum>m<n. (c # replicate n 0) ! Suc m * cis (- (2 * pi * real k * real (Suc m) / real (Suc n)))) = 0"
    by (rule sum.neutral) simp
  finally show ?thesis by simp
qed

lemma FFT_zero:
  assumes "k < n"
  shows "FFT (replicate n 0) ! k = 0"
proof -
  have "FFT (replicate n 0) ! k
      = (\<Sum>m<n. replicate n 0 ! m * cis (- (2 * pi * real k * real m / real n)))"
    using assms by (simp add: FFT_nth)
  also have "\<dots> = 0" by (rule sum.neutral) simp
  finally show ?thesis .
qed

lemma spectrum_zero:
  assumes "n \<le> framesPerBuffer"
  shows "spectrum (replicate n 0) = Inr (replicate (framesPerBuffer div 2) 0)"
proof -
  have "replicate n (0::complex) @ replicate (framesPerBuffer - n) 0
      = replicate (n + (framesPerBuffer - n)) 0"
    by (simp only: replicate_add)
  then have pad: "map (\<lambda>s. Complex s 0) (replicate n 0)
        @ replicate (framesPerBuffer - length (replicate n (0::real))) 0
        = replicate framesPerBuffer 0"
    using assms by (simp add: zero_complex.code)
  have zeros: "map (\<lambda>j. cmod (FFT (replicate framesPerBuffer 0) ! j)) [0..<framesPerBuffer div 2]
      = map (\<lambda>j. 0) [0..<framesPerBuffer div 2]"
    by (rule map_cong) (auto simp: FFT_zero framesPerBuffer_def)
  have "spectrum (replicate n 0) =
    Inr (map (\<lambda>j. cmod (FFT (map (\<lambda>s. Complex s 0) (replicate n 0)
        @ replicate (framesPerBuffer - length (replicate n (0::real))) 0) ! j))
          [0..<framesPerBuffer div 2])"
    by (rule spectrum_ok) (simp add: assms)
  also have "\<dots> = Inr (map (\<lambda>j. 0) [0..<framesPerBuffer div 2])"
    unfolding pad zeros ..
  finally show ?thesis by (simp add: map_replicate_const)
qed

lemma spectrum_impulse:
  "spectrum [a] = Inr (replicate (framesPerBuffer div 2) \<bar>a\<bar>)"
proof -
  have pad: "map (\<lambda>s. Complex s 0) [a] @ replicate (framesPerBuffer - length [a]) 0
        = Complex a 0 # replicate 2047 0"
    by (simp add: framesPerBuffer_def)
  have "map (\<lambda>j. cmod (FFT (Complex a 0 # replicate 2047 0) ! j)) [0..<framesPerBuffer div 2]
      = map (\<lambda>j. \<bar>a\<bar>) [0..<framesPerBuffer div 2]"
    by (rule map_cong) (auto simp: FFT_impulse framesPerBuffer_def cmod_def)
  then show ?thesis
    by (simp add: spectrum_ok pad map_replicate_const framesPerBuffer_def)
qed

lemma peak_scan_keep:
  "\<forall>j. i \<le> j \<and> j < length ms \<longrightarrow> ms ! j \<le> m0 \<Longrightarrow> peak_scan i ms m0 k0 = (m0, k0)"
proof (induction i ms m0 k0 rule: peak_scan.induct)
  case (1 i ms m0 k0)
  show ?case
  proof (cases "int i < highFreqLimit \<and> i < length ms")
    case True
    with "1.prems" have no: "\<not> m0 < ms ! i" by (simp add: not_less)
    have "peak_scan i ms m0 k0 = peak_scan (Suc i) ms m0 k0"
      using True no by (subst peak_scan.simps) simp
    also have "\<dots> = (m0, k0)"
      using "1.prems" by (intro "1.IH"(2)[OF True no]) simp
    finally show ?thesis .
  next
    case False
    then show ?thesis by (subst peak_scan.simps) auto
  qed
qed

lemma findPeak_zero: "findPeak (replicate n 0) = (0, 0)"
  unfolding findPeak_def by (rule peak_scan_keep) simp

lemma findPeak_const:
  assumes "0 < a"
  shows "findPeak (replicate (framesPerBuffer div 2) a) = (a, 0)"
proof -
  have "findPeak (replicate (framesPerBuffer div 2) a)
      = (replicate (framesPerBuffer div 2) a ! 0, 0)"
    using assms by (intro findPeak_unique) (auto simp: framesPerBuffer_def)
  then show ?thesis by (simp add: framesPerBuffer_def)
qed

lemma cmod_real: "cmod (Complex r 0) = \<bar>r\<bar>"
  by (simp add: cmod_def)

lemma FFT_three:
  assumes "k < n + 3"
  shows "FFT (a # b # c # replicate n 0) ! k =
     a + b * cis (- (2 * pi * real k * 1 / real (n + 3)))
       + c * cis (- (2 * pi * real k * 2 / real (n + 3)))"
proof -
  let ?x = "a # b # c # replicate n 0"
  let ?w = "\<lambda>m. cis (- (2 * pi * real k * real m / real (n + 3)))"
  have len: "length ?x = Suc (Suc (Suc n))" by simp
  have "FFT ?x ! k = (\<Sum>m<length ?x. ?x ! m * cis (- (2 * pi * real k * real m / real (length ?x))))"
    using assms by (intro FFT_nth) simp
  also have "\<dots> = (\<Sum>m<Suc (Suc (Suc n)). ?x ! m * ?w m)"
    unfolding len by (simp add: add.commute)
  also have "\<dots> = ?x ! 0 * ?w 0 + (?x ! Suc 0 * ?w (Suc 0) + (?x ! Suc (Suc 0) * ?w (Suc (Suc 0))
      + (\<Sum>m<n. ?x ! Suc (Suc (Suc m)) * ?w (Suc (Suc (Suc m))))))"
    by (simp only: sum.lessThan_Suc_shift)
  also have "(\<Sum>m<n. ?x ! Suc (Suc (Suc m)) * ?w (Suc (Suc (Suc m)))) = 0"
    by (rule sum.neutral) simp
  finally show ?thesis by (simp add: add.assoc)
qed

lemma findPeak_three:
  assumes "0 \<le> a" and "0 \<le> b" and "0 \<le> c"
  shows "\<exists>mags. spectrum [a, b, c] = Inr mags \<and> findPeak mags = (a + b + c, 0)"
proof -
  define X where "X = FFT (Complex a 0 # Complex b 0 # Complex c 0 # replicate 2045 0)"
  define mags where "mags = map (\<lambda>j. cmod (X ! j)) [0..<1024]"
  have pad: "map (\<lambda>s. Complex s 0) [a, b, c] @ replicate (framesPerBuffer - length [a, b, c]) 0
        = Complex a 0 # Complex b 0 # Complex c 0 # replicate 2045 0"
    by (simp add: framesPerBuffer_def)
  have "length [a, b, c] \<le> framesPerBuffer" by (simp add: framesPerBuffer_def)
  from spectrum_ok[OF this] have s: "spectrum [a, b, c] = Inr mags"
    unfolding pad mags_def X_def by (simp add: framesPerBuffer_def)
  have bound: "cmod (X ! k) \<le> a + b + c" if "k < 1024" for k
  proof -
    have "k < 2045 + 3" using that by simp
    from FFT_three[OF this, of "Complex a 0" "Complex b 0" "Complex c 0"]
    have "cmod (X ! k) = cmod (Complex a 0 + Complex b 0 * cis (- (2 * pi * real k * 1 / real (2045 + 3 :: nat)))
       + Complex c 0 * cis (- (2 * pi * real k * 2 / real (2045 + 3 :: nat))))"
      unfolding X_def by simp
    also have "\<dots> \<le> cmod (Complex a 0
          + Complex b 0 * cis (- (2 * pi * real k * 1 / real (2045 + 3 :: nat))))
        + cmod (Complex c 0 * cis (- (2 * pi * real k * 2 / real (2045 + 3 :: nat))))"
      by (rule norm_triangle_ineq)
    also have "\<dots> \<le> cmod (Complex a 0)
        + cmod (Complex b 0 * cis (- (2 * pi * real k * 1 / real (2045 + 3 :: nat))))
        + cmod (Complex c 0 * cis (- (2 * pi * real k * 2 / real (2045 + 3 :: nat))))"
      by (intro add_right_mono norm_triangle_ineq)
    also have "\<dots> = \<bar>a\<bar> + \<bar>b\<bar> + \<bar>c\<bar>"
      by (simp only: norm_mult norm_cis mult_1_right cmod_real)
    finally show ?thesis using assms by simp
  qed
  have zero: "X ! 0 = Complex (a + b + c) 0"
    using FFT_three[of 0 2045 "Complex a 0" "Complex b 0" "Complex c 0"]
    unfolding X_def by (simp add: complex_eq_iff)
  have m0: "mags ! 0 = a + b + c"
    using assms by (simp add: mags_def zero cmod_def)
  have "findPeak mags = (mags ! 0, 0)"
  proof (rule findPeak_unique)
    show "0 < min 102 (length mags)" by (simp add: mags_def)
    show "\<forall>j<min 102 (length mags). 0 \<le> mags ! j" by (simp add: mags_def)
    show "\<forall>j<min 102 (length mags). mags ! j \<le> mags ! 0"
      unfolding m0 using bound by (simp add: mags_def)
    show "\<forall>j<0. mags ! j < mags ! 0" by simp
  qed
  with s m0 show ?thesis by auto
qed

lemma findClosestNote_Inr: "\<exists>n. findClosestNote freq = Inr n"
  using findClosestNote_total[of freq] by blast

lemma report_silent: "maxMag \<le> round64 0.05 \<Longrightarrow> report maxMag maxIdx = Inr None"
proof -
  assume a: "maxMag \<le> round64 0.05"
  obtain c where "findClosestNote (real maxIdx * freqResolution) = Inr c"
    using findClosestNote_Inr by blast
  with a show ?thesis by (simp add: report_def Let_def)
qed

lemma report_loud:
  assumes "round64 0.05 < maxMag"
    and "findClosestNote (real maxIdx * freqResolution) = Inr full"
    and "findClosestNote (real maxIdx * freqResolution / 2) = Inr half"
  shows "report maxMag maxIdx =
    Inr (Some \<lparr>resNote = (if 261 < real maxIdx * freqResolution
                            \<and> \<bar>fsub (real maxIdx * freqResolution / 2) (Frequency half)\<bar>
                                < freqResolution
                         then half else full),
              rawFrequency = real maxIdx * freqResolution, magnitude = maxMag\<rparr>)"
  using assms by (simp add: report_def Let_def)

lemma spectrum_Inr_D:
  assumes "spectrum inp = Inr mags"
  shows "length inp \<le> framesPerBuffer" and "length mags = framesPerBuffer div 2"
    and "\<forall>j<framesPerBuffer div 2. 0 \<le> mags ! j"
proof -
  show le: "length inp \<le> framesPerBuffer"
  proof (rule ccontr)
    assume "\<not> length inp \<le> framesPerBuffer"
    then have "spectrum inp = Inl IndexOutOfRange" by (simp add: spectrum_panic)
    with assms show False by simp
  qed
  from spectrum_ok[OF le] assms
  have m: "mags = map (\<lambda>j. cmod (FFT (map (\<lambda>s. Complex s 0) inp
               @ replicate (framesPerBuffer - length inp) 0) ! j)) [0..<framesPerBuffer div 2]"
    by simp
  show "length mags = framesPerBuffer div 2" by (simp add: m)
  show "\<forall>j<framesPerBuffer div 2. 0 \<le> mags ! j" by (simp add: m)
qed

lemma processAudio_peak:
  assumes "spectrum inp = Inr mags" and "findPeak mags = (maxMag, maxIdx)"
  shows "processAudio inp = report maxMag maxIdx"
  using assms by (simp add: processAudio_def)

section \<open>Sums of complex exponentials and bounds on the sine\<close>

lemma cis_sum:
  assumes "cis \<phi> \<noteq> 1"
  shows "(\<Sum>n<N. cis (\<phi> * real n)) = (cis (\<phi> * real N) - 1) / (cis \<phi> - 1)"
proof -
  have "(\<Sum>n<N. cis (\<phi> * real n)) = (\<Sum>n<N. cis \<phi> ^ n)"
    by (simp add: DeMoivre mult.commute)
  also have "\<dots> = (cis \<phi> ^ N - 1) / (cis \<phi> - 1)"
    by (rule geometric_sum[OF assms])
  finally show ?thesis by (simp add: DeMoivre mult.commute)
qed

lemma cmod_cis_minus_one: "cmod (cis \<phi> - 1) = 2 * \<bar>sin (\<phi> / 2)\<bar>"
proof -
  have c: "cos \<phi> = 1 - 2 * (sin (\<phi> / 2))\<^sup>2"
    using cos_double_sin[of "\<phi> / 2"] by simp
  have "(sin \<phi>)\<^sup>2 = 1 - (cos \<phi>)\<^sup>2"
    using sin_cos_squared_add[of \<phi>] by linarith
  moreover have "(cmod (cis \<phi> - 1))\<^sup>2 = (cos \<phi> - 1)\<^sup>2 + (sin \<phi>)\<^sup>2"
    by (simp add: cmod_power2)
  ultimately have "(cmod (cis \<phi> - 1))\<^sup>2 = 2 - 2 * cos \<phi>"
    by (simp add: power2_eq_square algebra_simps)
  also have "\<dots> = (2 * \<bar>sin (\<phi> / 2)\<bar>)\<^sup>2"
    by (simp add: c power2_eq_square)
  finally show ?thesis
    by (rule power2_eq_imp_eq) simp_all
qed

lemma cmod_cis_sum:
  assumes "sin (\<phi> / 2) \<noteq> 0"
  shows "cmod (\<Sum>n<N. cis (\<phi> * real n)) = \<bar>sin (\<phi> * real N / 2)\<bar> / \<bar>sin (\<phi> / 2)\<bar>"
proof -
  have "cmod (cis \<phi> - 1) \<noteq> 0"
    using assms by (simp add: cmod_cis_minus_one)
  then have ne: "cis \<phi> \<noteq> 1" by auto
  show ?thesis
    by (simp add: cis_sum[OF ne] norm_divide cmod_cis_minus_one)
qed

lemma sample_times_kernel:
  "Complex (sin t) 0 * cis (- s) = (cis (t - s) - cis (- (t + s))) / (2 * \<i>)"
  by (simp add: complex_eq_iff sin_diff cos_diff sin_add cos_add)

lemma sample_times_kernel_phase:
  "Complex (amp * sin (t + p)) 0 * cis (- s)
     = of_real amp * ((cis p * cis (t - s) - cis (- p) * cis (- (t + s))) / (2 * \<i>))"
proof -
  have "Complex (amp * sin (t + p)) 0 = of_real amp * Complex (sin (t + p)) 0"
    by (simp add: complex_eq_iff)
  moreover have "cis p * cis (t - s) = cis (t + p - s)"
    by (simp add: cis_mult algebra_simps)
  moreover have "cis (- p) * cis (- (t + s)) = cis (- (t + p + s))"
    by (simp add: cis_mult algebra_simps)
  ultimately show ?thesis
    using sample_times_kernel[of "t + p" s] by (simp only: mult.assoc)
qed

lemma abs_sin_shift_minus: "\<bar>sin (x - real k * pi)\<bar> = \<bar>sin x\<bar>"
  by (simp add: sin_diff abs_mult power_abs)

lemma abs_sin_shift_plus: "\<bar>sin (x + real k * pi)\<bar> = \<bar>sin x\<bar>"
  by (simp add: sin_add abs_mult power_abs)

lemma sin_cubic_lower:
  fixes t :: real
  assumes "0 \<le> t"
  shows "t - t ^ 3 / 6 \<le> sin t"
proof -
  have c1: "sin_coeff (Suc 0) = 1" and c2: "sin_coeff (Suc (Suc 0)) = 0"
    by (simp_all add: sin_coeff_def)
  have "{..<3::nat} = {0, Suc 0, Suc (Suc 0)}" by auto
  then have s: "(\<Sum>m<3. sin_coeff m * t ^ m) = t"
    by (simp add: c1 c2)
  have f: "inverse (fact 3) = (1 / 6::real)"
    by (simp add: fact_numeral)
  have a: "\<bar>t\<bar> ^ 3 = t ^ 3" using assms by simp
  have "\<bar>sin t - t\<bar> \<le> 1 / 6 * t ^ 3"
    using Maclaurin_sin_bound[of t 3] unfolding s f a .
  then show ?thesis by linarith
qed

section \<open>The spectrum of a sine block\<close>

lemma FFT_sine:
  assumes k: "k < 2048"
  shows "FFT (map (\<lambda>s. Complex s 0) (sine_block amp f p)) ! k =
     of_real amp *
     ((cis p * (\<Sum>n<2048. cis (2 * pi * (f * 2048 / 44100 - real k) / 2048 * real n))
       - cis (- p) * (\<Sum>n<2048. cis (- (2 * pi * (f * 2048 / 44100 + real k) / 2048) * real n)))
      / (2 * \<i>))"
proof -
  have len: "length (map (\<lambda>s. Complex s 0) (sine_block amp f p)) = 2048"
    by (simp add: sine_block_def framesPerBuffer_def)
  have summand: "map (\<lambda>s. Complex s 0) (sine_block amp f p) ! n * cis (- (2 * pi * real k * real n / 2048))
      = of_real amp * ((cis p * cis (2 * pi * (f * 2048 / 44100 - real k) / 2048 * real n)
         - cis (- p) * cis (- (2 * pi * (f * 2048 / 44100 + real k) / 2048) * real n)) / (2 * \<i>))"
    if "n < 2048" for n
  proof -
    have a: "map (\<lambda>s. Complex s 0) (sine_block amp f p) ! n
        = Complex (amp * sin (2 * pi * f * real n / 44100 + p)) 0"
      using that by (simp add: sine_block_def framesPerBuffer_def sampleRate_def)
    have b: "2 * pi * f * real n / 44100 - 2 * pi * real k * real n / 2048
        = 2 * pi * (f * 2048 / 44100 - real k) / 2048 * real n"
      by (simp add: field_simps)
    have c: "- (2 * pi * f * real n / 44100 + 2 * pi * real k * real n / 2048)
        = - (2 * pi * (f * 2048 / 44100 + real k) / 2048) * real n"
      by (simp add: field_simps)
    show ?thesis unfolding a sample_times_kernel_phase b c ..
  qed
  have "FFT (map (\<lambda>s. Complex s 0) (sine_block amp f p)) ! k
      = (\<Sum>n<2048. map (\<lambda>s. Complex s 0) (sine_block amp f p) ! n
            * cis (- (2 * pi * real k * real n / real 2048)))"
    using k by (simp only: FFT_nth len)
  also have "\<dots> = (\<Sum>n<2048. map (\<lambda>s. Complex s 0) (sine_block amp f p) ! n
            * cis (- (2 * pi * real k * real n / 2048)))"
    by simp
  also have "\<dots> = (\<Sum>n<2048. of_real amp * ((cis p * cis (2 * pi * (f * 2048 / 44100 - real k) / 2048 * real n)
         - cis (- p) * cis (- (2 * pi * (f * 2048 / 44100 + real k) / 2048) * real n)) / (2 * \<i>)))"
    by (rule sum.cong) (simp_all only: summand lessThan_iff)
  finally show ?thesis
    by (simp only: sum_distrib_left[symmetric] sum_divide_distrib[symmetric] sum_subtractf)
qed

lemma sin_small:
  fixes a :: real
  assumes "a \<noteq> 0" and "\<bar>a\<bar> \<le> 203"
  shows "0.97 * (pi * \<bar>a\<bar> / 2048) \<le> \<bar>sin (pi * a / 2048)\<bar>"
    and "\<bar>sin (pi * a / 2048)\<bar> \<le> pi * \<bar>a\<bar> / 2048"
proof -
  define t where "t = pi * \<bar>a\<bar> / 2048"
  have t0: "0 < t" using assms(1) by (simp add: t_def)
  have "pi * \<bar>a\<bar> \<le> 4 * 203"
    using pi_less_4 assms(2) by (intro mult_mono) simp_all
  then have t1: "t \<le> 2 / 5" by (simp add: t_def)
  have "t * t \<le> (2 / 5) * (2 / 5)"
    using t0 t1 by (intro mult_mono) simp_all
  then have "t * (t * t) \<le> t * (4 / 25)"
    using t0 by (intro mult_left_mono) simp_all
  then have "0.97 * t \<le> t - t ^ 3 / 6"
    using t0 by (simp add: power3_eq_cube)
  also have "\<dots> \<le> sin t" using t0 by (intro sin_cubic_lower) simp
  finally have low: "0.97 * t \<le> sin t" .
  have abs: "\<bar>sin (pi * a / 2048)\<bar> = \<bar>sin t\<bar>"
  proof (cases "0 \<le> a")
    case True
    then show ?thesis by (simp add: t_def)
  next
    case False
    then have "pi * a / 2048 = - t" by (simp add: t_def)
    then show ?thesis by simp
  qed
  show "0.97 * (pi * \<bar>a\<bar> / 2048) \<le> \<bar>sin (pi * a / 2048)\<bar>"
    using low unfolding abs t_def[symmetric] by linarith
  show "\<bar>sin (pi * a / 2048)\<bar> \<le> pi * \<bar>a\<bar> / 2048"
    using abs_sin_x_le_abs_x[of t] t0 unfolding abs t_def[symmetric] by simp
qed

lemma cmod_sine_sum_minus:
  assumes "sin (pi * (f0 - real k) / 2048) \<noteq> 0"
  shows "cmod (\<Sum>n<2048. cis (2 * pi * (f0 - real k) / 2048 * real n))
       = \<bar>sin (pi * f0)\<bar> / \<bar>sin (pi * (f0 - real k) / 2048)\<bar>"
proof -
  have h: "2 * pi * (f0 - real k) / 2048 / 2 = pi * (f0 - real k) / 2048" by simp
  have w: "2 * pi * (f0 - real k) / 2048 * real (2048::nat) / 2 = pi * f0 - real k * pi"
    by (simp add: field_simps)
  have "sin (2 * pi * (f0 - real k) / 2048 / 2) \<noteq> 0" using assms unfolding h .
  from cmod_cis_sum[OF this, of 2048] show ?thesis
    unfolding h w abs_sin_shift_minus .
qed

lemma cmod_sine_sum_plus:
  assumes "sin (pi * (f0 + real k) / 2048) \<noteq> 0"
  shows "cmod (\<Sum>n<2048. cis (- (2 * pi * (f0 + real k) / 2048) * real n))
       = \<bar>sin (pi * f0)\<bar> / \<bar>sin (pi * (f0 + real k) / 2048)\<bar>"
proof -
  have h: "- (2 * pi * (f0 + real k) / 2048) / 2 = - (pi * (f0 + real k) / 2048)" by simp
  have w: "- (2 * pi * (f0 + real k) / 2048) * real (2048::nat) / 2 = - (pi * f0 + real k * pi)"
    by (simp add: field_simps)
  have "sin (- (2 * pi * (f0 + real k) / 2048) / 2) \<noteq> 0" using assms unfolding h by simp
  from cmod_cis_sum[OF this, of 2048] show ?thesis
    unfolding h w sin_minus abs_minus_cancel abs_sin_shift_plus .
qed

lemma sine_bin_bounds:
  fixes amp f p f0 :: real and k :: nat
  assumes f0: "f0 = f * 2048 / 44100" and amp: "0 < amp"
    and k: "k \<le> 101" and pos: "0 < f0" and le: "f0 \<le> 102" and ne: "f0 \<noteq> real k"
  shows "cmod (FFT (map (\<lambda>s. Complex s 0) (sine_block amp f p)) ! k)
           \<le> amp * (\<bar>sin (pi * f0)\<bar> * 1024 / pi * (1 / (0.97 * \<bar>f0 - real k\<bar>) + 1 / (0.97 * (f0 + real k))))"
    and "amp * (\<bar>sin (pi * f0)\<bar> * 1024 / pi * (1 / \<bar>f0 - real k\<bar> - 1 / (0.97 * (f0 + real k))))
           \<le> cmod (FFT (map (\<lambda>s. Complex s 0) (sine_block amp f p)) ! k)"
proof -
  define s where "s = \<bar>sin (pi * f0)\<bar>"
  define a where "a = \<bar>f0 - real k\<bar>"
  define b where "b = f0 + real k"
  define Sa where "Sa = \<bar>sin (pi * (f0 - real k) / 2048)\<bar>"
  define Sb where "Sb = \<bar>sin (pi * (f0 + real k) / 2048)\<bar>"
  define G1 where "G1 = (\<Sum>n<2048. cis (2 * pi * (f0 - real k) / 2048 * real n))"
  define G2 where "G2 = (\<Sum>n<2048. cis (- (2 * pi * (f0 + real k) / 2048) * real n))"
  have s0: "0 \<le> s" by (simp add: s_def)
  have a0: "0 < a" using ne by (simp add: a_def)
  have b0: "0 < b" using pos by (simp add: b_def)
  have "f0 - real k \<noteq> 0" "\<bar>f0 - real k\<bar> \<le> 203"
    using ne pos le k by auto
  from sin_small[OF this] have Sa: "0.97 * (pi * a / 2048) \<le> Sa" "Sa \<le> pi * a / 2048"
    by (simp_all add: Sa_def a_def)
  have "f0 + real k \<noteq> 0" "\<bar>f0 + real k\<bar> \<le> 203"
    using pos le k by auto
  from sin_small[OF this] have Sb: "0.97 * (pi * b / 2048) \<le> Sb" "Sb \<le> pi * b / 2048"
    using pos by (simp_all add: Sb_def b_def)
  have ca: "0 < 0.97 * (pi * a / 2048)" using a0 by simp
  have cb: "0 < 0.97 * (pi * b / 2048)" using b0 by simp
  have Sa0: "0 < Sa" using ca Sa(1) by linarith
  have Sb0: "0 < Sb" using cb Sb(1) by linarith
  have g1: "cmod G1 = s / Sa"
    unfolding G1_def s_def Sa_def using Sa0 by (intro cmod_sine_sum_minus) (simp add: Sa_def)
  have g2: "cmod G2 = s / Sb"
    unfolding G2_def s_def Sb_def using Sb0 by (intro cmod_sine_sum_plus) (simp add: Sb_def)
  have "k < 2048" using k by simp
  from FFT_sine[OF this, of amp f p]
  have X: "cmod (FFT (map (\<lambda>s. Complex s 0) (sine_block amp f p)) ! k) = amp * (cmod (cis p * G1 - cis (- p) * G2) / 2)"
    unfolding G1_def G2_def f0 using amp by (simp add: norm_divide norm_mult)
  have n1: "cmod (cis p * G1) = cmod G1" and n2: "cmod (cis (- p) * G2) = cmod G2"
    by (simp_all add: norm_mult)
  define U1 where "U1 = s / (0.97 * (pi * a / 2048))"
  define U2 where "U2 = s / (0.97 * (pi * b / 2048))"
  define L1 where "L1 = s / (pi * a / 2048)"
  have up1: "cmod G1 \<le> U1"
    unfolding U1_def g1 using s0 ca Sa(1) by (intro divide_left_mono) simp_all
  have up2: "cmod G2 \<le> U2"
    unfolding U2_def g2 using s0 cb Sb(1) by (intro divide_left_mono) simp_all
  have lo1: "L1 \<le> cmod G1"
    unfolding L1_def g1 using s0 Sa0 Sa(2) a0 by (intro divide_left_mono) simp_all
  have "cmod (cis p * G1 - cis (- p) * G2) \<le> cmod G1 + cmod G2"
    using norm_triangle_ineq4[of "cis p * G1" "cis (- p) * G2"] unfolding n1 n2 .
  with up1 up2 have "cmod (cis p * G1 - cis (- p) * G2) / 2 \<le> (U1 + U2) / 2"
    by simp
  also have "\<dots> = s * 1024 / pi * (1 / (0.97 * a) + 1 / (0.97 * b))"
    unfolding U1_def U2_def using a0 b0 by (simp add: field_simps)
  finally have "amp * (cmod (cis p * G1 - cis (- p) * G2) / 2)
      \<le> amp * (s * 1024 / pi * (1 / (0.97 * a) + 1 / (0.97 * b)))"
    using amp by (intro mult_left_mono) simp_all
  then show "cmod (FFT (map (\<lambda>s. Complex s 0) (sine_block amp f p)) ! k)
           \<le> amp * (\<bar>sin (pi * f0)\<bar> * 1024 / pi * (1 / (0.97 * \<bar>f0 - real k\<bar>) + 1 / (0.97 * (f0 + real k))))"
    unfolding X s_def a_def b_def .
  have "s * 1024 / pi * (1 / a - 1 / (0.97 * b)) = (L1 - U2) / 2"
    unfolding L1_def U2_def using a0 b0 by (simp add: field_simps)
  also have "\<dots> \<le> (cmod G1 - cmod G2) / 2"
    using lo1 up2 by simp
  also have "\<dots> \<le> cmod (cis p * G1 - cis (- p) * G2) / 2"
    using norm_triangle_ineq2[of "cis p * G1" "cis (- p) * G2"] unfolding n1 n2 by simp
  finally have "amp * (s * 1024 / pi * (1 / a - 1 / (0.97 * b)))
      \<le> amp * (cmod (cis p * G1 - cis (- p) * G2) / 2)"
    using amp by (intro mult_left_mono) simp_all
  then show "amp * (\<bar>sin (pi * f0)\<bar> * 1024 / pi * (1 / \<bar>f0 - real k\<bar> - 1 / (0.97 * (f0 + real k))))
           \<le> cmod (FFT (map (\<lambda>s. Complex s 0) (sine_block amp f p)) ! k)"
    unfolding X s_def a_def b_def .
qed

lemma sine_peak_bin:
  fixes amp f p f0 :: real and k0 k :: nat
  assumes f0: "f0 = f * 2048 / 44100" and amp: "0 < amp"
    and k0: "k0 \<le> 101" and pos: "0 < f0" and le: "f0 \<le> 102"
    and d0: "0 < \<bar>f0 - real k0\<bar>" and d1: "\<bar>f0 - real k0\<bar> < 1"
    and H: "1 / (0.97 * (1 - \<bar>f0 - real k0\<bar>)) + 1 / (0.97 * f0)
              < 1 / \<bar>f0 - real k0\<bar> - 1 / (0.97 * (f0 + real k0))"
    and k: "k \<le> 101" and kk: "k \<noteq> k0"
  shows "cmod (FFT (map (\<lambda>s. Complex s 0) (sine_block amp f p)) ! k)
         < cmod (FFT (map (\<lambda>s. Complex s 0) (sine_block amp f p)) ! k0)"
proof -
  define d where "d = \<bar>f0 - real k0\<bar>"
  define W where "W = \<bar>sin (pi * f0)\<bar> * 1024 / pi"
  define Xk where "Xk = cmod (FFT (map (\<lambda>s. Complex s 0) (sine_block amp f p)) ! k)"
  define Xk0 where "Xk0 = cmod (FFT (map (\<lambda>s. Complex s 0) (sine_block amp f p)) ! k0)"
  have "sin (pi * f0 - real k0 * pi) \<noteq> 0"
  proof
    assume "sin (pi * f0 - real k0 * pi) = 0"
    then obtain i :: int where "pi * f0 - real k0 * pi = of_int i * pi"
      unfolding sin_zero_iff_int2 by blast
    then have "(f0 - real k0) * pi = of_int i * pi" by (simp add: algebra_simps)
    then have "f0 - real k0 = of_int i" by simp
    with d0 d1 show False by simp
  qed
  then have "\<bar>sin (pi * f0)\<bar> \<noteq> 0"
    using abs_sin_shift_minus[of "pi * f0" k0] by simp
  then have W0: "0 < W" by (simp add: W_def)
  have apart: "1 \<le> \<bar>real k - real k0\<bar>" using kk by linarith
  have far: "1 - d \<le> \<bar>f0 - real k\<bar>" unfolding d_def using apart by linarith
  have gap: "0 < 1 - d" using d1 by (simp add: d_def)
  have ne: "f0 \<noteq> real k" using far gap by auto
  have ne0: "f0 \<noteq> real k0" using d0 by auto
  have "Xk \<le> amp * (W * (1 / (0.97 * \<bar>f0 - real k\<bar>) + 1 / (0.97 * (f0 + real k))))"
    unfolding W_def Xk_def by (rule sine_bin_bounds(1)[OF f0 amp k pos le ne])
  also have "\<dots> \<le> amp * (W * (1 / (0.97 * (1 - d)) + 1 / (0.97 * f0)))"
  proof -
    have "1 / (0.97 * \<bar>f0 - real k\<bar>) \<le> 1 / (0.97 * (1 - d))"
      using far gap by (intro divide_left_mono mult_pos_pos) simp_all
    moreover have "1 / (0.97 * (f0 + real k)) \<le> 1 / (0.97 * f0)"
      using pos by (intro divide_left_mono mult_pos_pos) simp_all
    ultimately show ?thesis using W0 amp by (intro mult_left_mono add_mono) simp_all
  qed
  also have "\<dots> < amp * (W * (1 / d - 1 / (0.97 * (f0 + real k0))))"
    using H W0 amp unfolding d_def by (intro mult_strict_left_mono)
  also have "\<dots> \<le> Xk0"
    unfolding W_def d_def Xk0_def by (rule sine_bin_bounds(2)[OF f0 amp k0 pos le ne0])
  finally show ?thesis unfolding Xk_def Xk0_def .
qed

lemma spectrum_sine:
  "spectrum (sine_block amp f p) =
     Inr (map (\<lambda>j. cmod (FFT (map (\<lambda>s. Complex s 0) (sine_block amp f p)) ! j)) [0..<1024])"
proof -
  have len: "length (sine_block amp f p) = framesPerBuffer"
    by (simp add: sine_block_def)
  then have "length (sine_block amp f p) \<le> framesPerBuffer" by simp
  from spectrum_ok[OF this] show ?thesis
    unfolding len by (simp add: framesPerBuffer_def)
qed

lemma findPeak_sine:
  fixes amp f p f0 :: real and k0 :: nat
  assumes f0: "f0 = f * 2048 / 44100" and amp: "0 < amp"
    and k0: "k0 \<le> 101" and pos: "0 < f0" and le: "f0 \<le> 102"
    and d0: "0 < \<bar>f0 - real k0\<bar>" and d1: "\<bar>f0 - real k0\<bar> < 1"
    and H: "1 / (0.97 * (1 - \<bar>f0 - real k0\<bar>)) + 1 / (0.97 * f0)
              < 1 / \<bar>f0 - real k0\<bar> - 1 / (0.97 * (f0 + real k0))"
    and mags: "mags = map (\<lambda>j. cmod (FFT (map (\<lambda>s. Complex s 0) (sine_block amp f p)) ! j)) [0..<1024]"
  shows "findPeak mags = (cmod (FFT (map (\<lambda>s. Complex s 0) (sine_block amp f p)) ! k0), k0)"
proof -
  have nth: "mags ! j = cmod (FFT (map (\<lambda>s. Complex s 0) (sine_block amp f p)) ! j)" if "j < 1024" for j
    using that unfolding mags by simp
  have len: "length mags = 1024" unfolding mags by simp
  have lt: "mags ! j < mags ! k0" if "j \<le> 101" "j \<noteq> k0" for j
    using sine_peak_bin[OF f0 amp k0 pos le d0 d1 H that] that k0 by (simp add: nth)
  have "findPeak mags = (mags ! k0, k0)"
  proof (rule findPeak_unique)
    show "k0 < min 102 (length mags)" using k0 by (simp add: len)
    show "\<forall>j<min 102 (length mags). 0 \<le> mags ! j" by (simp add: len nth)
    show "\<forall>j<min 102 (length mags). mags ! j \<le> mags ! k0"
    proof (intro allI impI)
      fix j assume "j < min 102 (length mags)"
      then have "j \<le> 101" by simp
      then show "mags ! j \<le> mags ! k0" using lt[of j] by (cases "j = k0") auto
    qed
    show "\<forall>j<k0. mags ! j < mags ! k0" using lt k0 by simp
  qed
  then show ?thesis using k0 by (simp add: nth)
qed

lemma findPeak_sine_440:
  assumes "0 < amp" and "mags = map (\<lambda>j. cmod (FFT (map (\<lambda>s. Complex s 0) (sine_block amp 440 p)) ! j)) [0..<1024]"
  shows "findPeak mags = (cmod (FFT (map (\<lambda>s. Complex s 0) (sine_block amp 440 p)) ! 20), 20)"
  by (rule findPeak_sine[where ?f0.0 = "45056 / 2205", OF _ assms(1) _ _ _ _ _ _ assms(2)]) simp_all

lemma findPeak_sine_880:
  assumes "0 < amp" and "mags = map (\<lambda>j. cmod (FFT (map (\<lambda>s. Complex s 0) (sine_block amp 880 p)) ! j)) [0..<1024]"
  shows "findPeak mags = (cmod (FFT (map (\<lambda>s. Complex s 0) (sine_block amp 880 p)) ! 41), 41)"
  by (rule findPeak_sine[where ?f0.0 = "90112 / 2205", OF _ assms(1) _ _ _ _ _ _ assms(2)]) simp_all

section \<open>Notes around A4 and the 880 Hz block\<close>

lemma make_note_33: "make_note 33 = \<lparr>Name = ''A4'', Frequency = 440\<rparr>"
  by (simp add: make_note_def startFreq_def A4_def noteNames_def digit_char_def powr_add[symmetric])

lemma Frequency_below_A4:
  assumes "j < 33"
  shows "Frequency (make_note j) < 4154 / 10"
proof -
  have "Frequency (make_note j) \<le> Frequency (make_note 32)"
    using assms Frequency_strict_mono[of j 32] by (cases "j = 32") auto
  also have "\<dots> = 440 * 2 powr (- (1 / 12))"
    by (simp add: make_note_Frequency)
  also have "\<dots> = 440 / 2 powr (1 / 12)"
    by (simp only: powr_minus_divide times_divide_eq_right mult_1_right)
  also have "\<dots> < 440 / (5297 / 5000)"
    using semitone_lower by (intro divide_strict_left_mono) simp_all
  also have "\<dots> < 4154 / 10" by simp
  finally show ?thesis .
qed

lemma Frequency_above_A4:
  assumes "33 < j"
  shows "46613 / 100 < Frequency (make_note j)"
proof -
  have "(46613 / 100 :: real) < 440 * (5297 / 5000)" by simp
  also have "\<dots> < 440 * 2 powr (1 / 12)"
    using semitone_lower by simp
  also have "\<dots> = Frequency (make_note 34)"
    by (simp add: make_note_Frequency)
  also have "\<dots> \<le> Frequency (make_note j)"
    using assms Frequency_strict_mono[of 34 j] by (cases "j = 34") auto
  finally show ?thesis .
qed

lemma findClosestNote_A4:
  assumes "428 \<le> x" and "x \<le> 453"
  shows "findClosestNote x = Inr \<lparr>Name = ''A4'', Frequency = 440\<rparr>"
proof -
  have "findClosestNote x = Inr (make_note 33)"
  proof (rule findClosestNote_first_min; (intro allI impI)?)
    show "(33::nat) < 61" by simp
  next
    fix j :: nat assume j: "j < 33"
    have "55 \<le> Frequency (make_note j)"
      unfolding make_note_Frequency by (rule ideal_low)
    with Frequency_below_A4[OF j] assms
    show "\<bar>fsub x (Frequency (make_note 33))\<bar> < \<bar>fsub x (Frequency (make_note j))\<bar>"
      unfolding make_note_33 fsub_def
      by (intro abs_round64_gap) (simp_all add: abs_if)
  next
    fix j :: nat assume j: "33 < j \<and> j < 61"
    then have "Frequency (make_note j) \<le> 3520"
      unfolding make_note_Frequency by (intro ideal_high) simp
    with Frequency_above_A4[of j] j assms
    have "\<bar>fsub x (Frequency (make_note 33))\<bar> < \<bar>fsub x (Frequency (make_note j))\<bar>"
      unfolding make_note_33 fsub_def
      by (intro abs_round64_gap) (simp_all add: abs_if)
    then show "\<bar>fsub x (Frequency (make_note 33))\<bar> \<le> \<bar>fsub x (Frequency (make_note j))\<bar>"
      by simp
  qed
  then show ?thesis by (simp add: make_note_33)
qed

subsection \<open>A frequency whose differences are absorbed\<close>

lemma semitone_upper: "2 powr (1 / 12) < (53 / 50 :: real)"
proof (rule ccontr)
  assume "\<not> 2 powr (1 / 12) < (53 / 50 :: real)"
  then have le: "(53 / 50 :: real) \<le> 2 powr (1 / 12)" by simp
  have "(2 powr (1 / 12)) ^ 12 = (2::real) powr (1 / 12 * real (12::nat))"
    by (simp only: powr_powr powr_realpow[symmetric] powr_gt_zero)
  then have "(2 powr (1 / 12)) ^ 12 = (2::real)" by simp
  moreover have "(53 / 50 :: real) ^ 12 \<le> (2 powr (1 / 12)) ^ 12"
    using le by (intro power_mono) simp_all
  moreover have "2 < (53 / 50 :: real) ^ 12" by (simp add: power_divide)
  ultimately show False by simp
qed

lemma round64_far:
  assumes "0 < f" and "f < 3072" and "f \<noteq> 1024"
  shows "round64 (10 ^ 19 - f) = (if f < 1024 then 10 ^ 19 else 10 ^ 19 - 2048)"
proof -
  define x :: real where "x = 10 ^ 19 - f"
  define g where "g = f / 2048"
  have x0: "0 < x" using assms by (simp add: x_def)
  have "2 powr 63 \<le> x" "x < 2 powr 64"
    using assms by (simp_all add: x_def powr_realpow[symmetric])
  then have "63 \<le> log 2 x" "log 2 x < 64"
    using x0 by (simp_all add: le_log_iff log_less_iff)
  then have "\<lfloor>log 2 x\<rfloor> = 63" by linarith
  then have u: "float64_ulp x = 2048"
    by (simp add: float64_ulp_def powr_realpow[symmetric])
  have q: "x / 2048 = 4882812500000000 - g"
    by (simp add: x_def g_def field_simps)
  have g: "0 < g" "g < 3 / 2" "g \<noteq> 1 / 2"
    using assms by (simp_all add: g_def)
  have r: "round_half_even (4882812500000000 - g) = (if g < 1 / 2 then 4882812500000000 else 4882812499999999)"
  proof -
    consider "g < 1 / 2" | "1 / 2 < g" "g \<le> 1" | "1 < g"
      using g by linarith
    then show ?thesis
    proof cases
      case 1
      then have "\<lfloor>4882812500000000 - g\<rfloor> = 4882812499999999"
        using g by (intro floor_unique) simp_all
      then show ?thesis using 1 g by (simp add: round_half_even_def Let_def)
    next
      case 2
      then have "\<lfloor>4882812500000000 - g\<rfloor> = 4882812499999999"
        by (intro floor_unique) simp_all
      then show ?thesis using 2 by (simp add: round_half_even_def Let_def)
    next
      case 3
      then have "\<lfloor>4882812500000000 - g\<rfloor> = 4882812499999998"
        using g by (intro floor_unique) simp_all
      then show ?thesis using 3 g by (simp add: round_half_even_def Let_def)
    qed
  qed
  have "round64 x = of_int (round_half_even (x / 2048)) * 2048"
    using x0 by (simp add: round64_def round64_mag_def u)
  also have "\<dots> = (if g < 1 / 2 then 10 ^ 19 else 10 ^ 19 - 2048)"
    unfolding q r by simp
  finally show ?thesis unfolding x_def by (simp add: g_def)
qed


lemma make_note_semitones:
  "Frequency (make_note (33 + n)) = 440 * (2 powr (1 / 12)) ^ n"
proof -
  have "(2 powr (1 / 12)) ^ n = (2::real) powr (1 / 12 * real n)"
    by (simp only: powr_powr powr_realpow[symmetric] powr_gt_zero)
  then show ?thesis by (simp add: make_note_Frequency)
qed

lemma Frequency_B5: "Frequency (make_note 47) < 1024"
proof -
  have "(2 powr (1 / 12)) ^ 14 \<le> (53 / 50 :: real) ^ 14"
    using semitone_upper by (intro power_mono) simp_all
  also have "\<dots> < 1024 / 440" by (simp add: power_divide)
  finally show ?thesis using make_note_semitones[of 14] by simp
qed

lemma Frequency_C6: "1024 < Frequency (make_note 48)"
proof -
  have "(1024 / 440 :: real) < (5297 / 5000) ^ 15" by (simp add: power_divide)
  also have "\<dots> \<le> (2 powr (1 / 12)) ^ 15"
    using semitone_lower by (intro power_mono) simp_all
  finally show ?thesis using make_note_semitones[of 15] by simp
qed

lemma Frequency_C7: "Frequency (make_note 60) < 3072"
proof -
  have "(2 powr (1 / 12)) ^ 27 \<le> (53 / 50 :: real) ^ 27"
    using semitone_upper by (intro power_mono) simp_all
  also have "\<dots> < 3072 / 440" by (simp add: power_divide)
  finally show ?thesis using make_note_semitones[of 27] by simp
qed

lemma Frequency_pos: "0 < Frequency (make_note j)"
  by (simp add: make_note_Frequency)

lemma findClosestNote_absorbed:
  "findClosestNote (10 ^ 19) = Inr \<lparr>Name = ''C6'', Frequency = 440 * 2 powr (5 / 4)\<rparr>"
proof -
  have low: "\<bar>fsub (10 ^ 19) (Frequency (make_note j))\<bar> = 10 ^ 19" if "j < 48" for j
  proof -
    have "Frequency (make_note j) \<le> Frequency (make_note 47)"
      using that Frequency_strict_mono[of j 47] by (cases "j = 47") auto
    with Frequency_B5 have "Frequency (make_note j) < 1024" by simp
    with Frequency_pos[of j] show ?thesis
      unfolding fsub_def by (subst round64_far) simp_all
  qed
  have high: "\<bar>fsub (10 ^ 19) (Frequency (make_note j))\<bar> = 10 ^ 19 - 2048" if "48 \<le> j" "j < 61" for j
  proof -
    have "Frequency (make_note 48) \<le> Frequency (make_note j)"
      using that Frequency_strict_mono[of 48 j] by (cases "j = 48") auto
    with Frequency_C6 have a: "1024 < Frequency (make_note j)" by simp
    have "Frequency (make_note j) \<le> Frequency (make_note 60)"
      using that Frequency_strict_mono[of j 60] by (cases "j = 60") auto
    with Frequency_C7 have "Frequency (make_note j) < 3072" by simp
    with a show ?thesis
      unfolding fsub_def by (subst round64_far) simp_all
  qed
  have "findClosestNote (10 ^ 19) = Inr (make_note 48)"
  proof (rule findClosestNote_first_min; (intro allI impI)?)
    show "(48::nat) < 61" by simp
  next
    fix j :: nat assume "j < 48"
    from low[OF this] high[of 48]
    show "\<bar>fsub (10 ^ 19) (Frequency (make_note 48))\<bar>
        < \<bar>fsub (10 ^ 19) (Frequency (make_note j))\<bar>"
      by simp
  next
    fix j :: nat assume "48 < j \<and> j < 61"
    with high[of j] high[of 48]
    show "\<bar>fsub (10 ^ 19) (Frequency (make_note 48))\<bar>
        \<le> \<bar>fsub (10 ^ 19) (Frequency (make_note j))\<bar>"
      by simp
  qed
  moreover have "make_note 48 = \<lparr>Name = ''C6'', Frequency = 440 * 2 powr (5 / 4)\<rparr>"
    by (simp add: make_note_Frequency make_note_Name noteNames_def digit_char_def)
  ultimately show ?thesis by simp
qed

lemma freqResolution_eq: "freqResolution = 11025 / 512"
  by (simp add: freqResolution_def sampleRate_def framesPerBuffer_def)

lemma sine_880_loud: "round64 0.05 < cmod (FFT (map (\<lambda>s. Complex s 0) (sine_block 1 880 0)) ! 41)"
proof -
  define t where "t = pi * (293 / 2205)"
  have t0: "2 * (293 / 2205) \<le> t" unfolding t_def using pi_ge_two by simp
  have t1: "t \<le> 4 * (293 / 2205)" unfolding t_def using pi_less_4 by simp
  have tpos: "0 < t" using t0 by simp
  have "t * t \<le> 4 * (293 / 2205) * (4 * (293 / 2205))"
    using tpos t1 by (intro mult_mono) simp_all
  then have "t * t \<le> 3 / 10" by simp
  then have "t * (t * t) \<le> t * (3 / 10)"
    using tpos by (intro mult_left_mono) simp_all
  then have "t * (19 / 20) \<le> t - t ^ 3 / 6" by (simp add: power3_eq_cube)
  also have "\<dots> \<le> sin t" using tpos by (intro sin_cubic_lower) simp
  finally have "t * (19 / 20) \<le> sin t" .
  with t0 have st: "1 / 4 \<le> sin t" by simp
  have "pi * (90112 / 2205) - real (41::nat) * pi = - t"
    by (simp add: t_def algebra_simps)
  then have "\<bar>sin (pi * (90112 / 2205))\<bar> = \<bar>sin (- t)\<bar>"
    using abs_sin_shift_minus[of "pi * (90112 / 2205)" 41] by simp
  with st have s: "1 / 4 \<le> \<bar>sin (pi * (90112 / 2205))\<bar>" by simp
  have "1 / 4 * 1024 / 4 \<le> \<bar>sin (pi * (90112 / 2205))\<bar> * 1024 / pi"
    using s pi_less_4 by (intro frac_le mult_right_mono) simp_all
  then have W: "64 \<le> \<bar>sin (pi * (90112 / 2205))\<bar> * 1024 / pi" by simp
  have F: "(7::real) \<le> 1 / \<bar>90112 / 2205 - real (41::nat)\<bar> - 1 / (0.97 * (90112 / 2205 + real (41::nat)))"
    by simp
  have "64 * (7::real)
      \<le> \<bar>sin (pi * (90112 / 2205))\<bar> * 1024 / pi
          * (1 / \<bar>90112 / 2205 - real (41::nat)\<bar> - 1 / (0.97 * (90112 / 2205 + real (41::nat))))"
    using W F by (intro mult_mono) simp_all
  also have "\<dots> \<le> cmod (FFT (map (\<lambda>s. Complex s 0) (sine_block 1 880 0)) ! 41)"
    using sine_bin_bounds(2)[where f = 880 and amp = 1 and p = 0 and k = 41 and ?f0.0 = "90112 / 2205"]
    by simp
  finally show ?thesis by (simp add: float64_twentieth)
qed

lemma processAudio_sine_880:
  "spectrum (sine_block 1 880 0) = Inr (map (\<lambda>j. cmod (FFT (map (\<lambda>s. Complex s 0) (sine_block 1 880 0)) ! j)) [0..<1024])"
  "findPeak (map (\<lambda>j. cmod (FFT (map (\<lambda>s. Complex s 0) (sine_block 1 880 0)) ! j)) [0..<1024])
     = (cmod (FFT (map (\<lambda>s. Complex s 0) (sine_block 1 880 0)) ! 41), 41)"
  by (rule spectrum_sine, rule findPeak_sine_880[OF _ refl]) simp

section \<open>The claims\<close>

text \<open>
  Claim C1. A block whose peak magnitude exceeds 0.05 (the float64 constant) and whose raw
  peak frequency exceeds 261 Hz reports the note nearest to half the raw frequency when that half lies within
  \<open>freqResolution\<close> of this note, and the note nearest to the raw frequency otherwise; the raw
  frequency reported is the uncorrected one in both cases. In particular, when the raw
  frequency lies within one bin width of 880 Hz, the half frequency is within one bin width
  of a table note and the block reports A4 (440 Hz).
\<close>

theorem harmonic_correction:
  assumes "spectrum inp = Inr mags" and "findPeak mags = (maxMag, maxIdx)"
    and "round64 0.05 < maxMag" and "261 < real maxIdx * freqResolution"
  shows "\<exists>half full.
      findClosestNote (real maxIdx * freqResolution / 2) = Inr half
    \<and> findClosestNote (real maxIdx * freqResolution) = Inr full
    \<and> processAudio inp =
        Inr (Some \<lparr>resNote = (if \<bar>fsub (real maxIdx * freqResolution / 2) (Frequency half)\<bar>
                                  < freqResolution
                               then half else full),
                  rawFrequency = real maxIdx * freqResolution, magnitude = maxMag\<rparr>)
    \<and> (\<bar>real maxIdx * freqResolution - 880\<bar> < freqResolution \<longrightarrow>
         \<bar>fsub (real maxIdx * freqResolution / 2) (Frequency half)\<bar> < freqResolution
         \<and> processAudio inp =
              Inr (Some \<lparr>resNote = \<lparr>Name = ''A4'', Frequency = 440\<rparr>,
                        rawFrequency = real maxIdx * freqResolution, magnitude = maxMag\<rparr>))"
proof -
  define raw where "raw = real maxIdx * freqResolution"
  obtain half full where h: "findClosestNote (raw / 2) = Inr half"
    and f: "findClosestNote raw = Inr full"
    using findClosestNote_Inr by blast
  have "processAudio inp = report maxMag maxIdx"
    by (rule processAudio_peak[OF assms(1,2)])
  also have "\<dots> = Inr (Some \<lparr>resNote = (if 261 < raw \<and> \<bar>fsub (raw / 2) (Frequency half)\<bar> < freqResolution
                                          then half else full),
                             rawFrequency = raw, magnitude = maxMag\<rparr>)"
    unfolding raw_def by (rule report_loud[OF assms(3) f[unfolded raw_def] h[unfolded raw_def]])
  finally have r: "processAudio inp =
        Inr (Some \<lparr>resNote = (if \<bar>fsub (raw / 2) (Frequency half)\<bar> < freqResolution then half else full),
                  rawFrequency = raw, magnitude = maxMag\<rparr>)"
    using assms(4) by (simp add: raw_def)
  have near: "\<bar>fsub (raw / 2) (Frequency half)\<bar> < freqResolution
         \<and> processAudio inp =
              Inr (Some \<lparr>resNote = \<lparr>Name = ''A4'', Frequency = 440\<rparr>, rawFrequency = raw, magnitude = maxMag\<rparr>)"
    if n: "\<bar>raw - 880\<bar> < freqResolution"
  proof -
    from n have "428 \<le> raw / 2" "raw / 2 \<le> 453"
      by (simp_all add: freqResolution_eq abs_if split: if_splits)
    then have a4: "half = \<lparr>Name = ''A4'', Frequency = 440\<rparr>"
      using findClosestNote_A4[of "raw / 2"] h by simp
    from n have d: "\<bar>raw / 2 - 440\<bar> < 11"
      by (simp add: freqResolution_eq abs_if split: if_splits)
    then have "\<bar>raw / 2 - 440\<bar> < 4096" by simp
    from abs_round64_near[OF this] d have "\<bar>round64 (raw / 2 - 440)\<bar> < 12"
      by (simp add: abs_if split: if_splits)
    then have "\<bar>fsub (raw / 2) 440\<bar> < freqResolution"
      by (simp add: fsub_def freqResolution_eq)
    then show ?thesis using r by (simp add: a4)
  qed
  from h f r near show ?thesis unfolding raw_def by blast
qed

theorem harmonic_correction_witness:
  "processAudio (sine_block 1 880 0) =
     Inr (Some \<lparr>resNote = \<lparr>Name = ''A4'', Frequency = 440\<rparr>,
               rawFrequency = 452025 / 512,
               magnitude = cmod (FFT (map (\<lambda>s. Complex s 0) (sine_block 1 880 0)) ! 41)\<rparr>)"
proof -
  have raw: "real (41::nat) * freqResolution = 452025 / 512"
    by (simp add: freqResolution_eq)
  have "261 < real (41::nat) * freqResolution" and n: "\<bar>real (41::nat) * freqResolution - 880\<bar> < freqResolution"
    by (simp_all add: freqResolution_eq)
  from harmonic_correction[OF processAudio_sine_880 sine_880_loud this(1)] n
  show ?thesis unfolding raw by blast
qed

text \<open>
  Claim C2. For a block of 2048 samples of a 440 Hz sine wave sampled at 44100 Hz (of any
  positive amplitude and any initial phase) the peak scan returns bin 20, whose frequency
  lies within one \<open>freqResolution\<close> of 440 Hz, and \<open>findClosestNote\<close> at this frequency returns
  the note A4.
\<close>

theorem pure_tone_440:
  assumes "0 < amp"
  shows "\<exists>mags maxMag maxIdx.
      spectrum (sine_block amp 440 phase) = Inr mags
    \<and> findPeak mags = (maxMag, maxIdx)
    \<and> maxIdx = 20
    \<and> \<bar>real maxIdx * freqResolution - 440\<bar> < freqResolution
    \<and> findClosestNote (real maxIdx * freqResolution) = Inr \<lparr>Name = ''A4'', Frequency = 440\<rparr>"
proof -
  define mags where
    "mags = map (\<lambda>j. cmod (FFT (map (\<lambda>s. Complex s 0) (sine_block amp 440 phase)) ! j)) [0..<1024]"
  have s: "spectrum (sine_block amp 440 phase) = Inr mags"
    unfolding mags_def by (rule spectrum_sine)
  have p: "findPeak mags = (cmod (FFT (map (\<lambda>s. Complex s 0) (sine_block amp 440 phase)) ! 20), 20)"
    by (rule findPeak_sine_440[OF assms mags_def])
  have near: "\<bar>real (20::nat) * freqResolution - 440\<bar> < freqResolution"
    by (simp add: freqResolution_eq)
  have "findClosestNote (real (20::nat) * freqResolution) = Inr \<lparr>Name = ''A4'', Frequency = 440\<rparr>"
    by (rule findClosestNote_A4) (simp_all add: freqResolution_eq)
  with s p near show ?thesis by blast
qed

theorem pure_tone_440_witness:
  "\<exists>mags maxMag.
      spectrum (sine_block 1 440 0) = Inr mags
    \<and> findPeak mags = (maxMag, 20)
    \<and> \<bar>real (20::nat) * freqResolution - 440\<bar> < freqResolution
    \<and> findClosestNote (real (20::nat) * freqResolution) = Inr \<lparr>Name = ''A4'', Frequency = 440\<rparr>"
proof -
  have "(0::real) < 1" by simp
  from pure_tone_440[OF this, of 0] show ?thesis by blast
qed

text \<open>
  Claim C3. A block reports a detection exactly when the magnitude found by the peak scan
  is strictly greater than the float64 constant \<open>0.05\<close> (the value
  \<open>3602879701896397 / 2 ^ 56\<close>); at a peak magnitude equal to this constant, or below it,
  the block prints nothing. The report depends on the magnitude through this comparison
  alone, whatever the magnitude is.
\<close>

theorem detection_iff_above_threshold:
  assumes "spectrum inp = Inr mags"
  shows "((\<exists>d. processAudio inp = Inr (Some d)) \<longleftrightarrow> round64 0.05 < fst (findPeak mags))
       \<and> (fst (findPeak mags) \<le> round64 0.05 \<longrightarrow> processAudio inp = Inr None)
       \<and> round64 0.05 = 3602879701896397 / 2 ^ 56
       \<and> (\<forall>maxMag maxIdx. (\<exists>d. report maxMag maxIdx = Inr (Some d)) \<longleftrightarrow> round64 0.05 < maxMag)
       \<and> (\<forall>maxIdx. report (round64 0.05) maxIdx = Inr None)"
proof -
  have rep: "(\<exists>d. report maxMag maxIdx = Inr (Some d)) \<longleftrightarrow> round64 0.05 < maxMag"
    and silent: "maxMag \<le> round64 0.05 \<Longrightarrow> report maxMag maxIdx = Inr None"
    for maxMag maxIdx
  proof -
    obtain full half where
      "findClosestNote (real maxIdx * freqResolution) = Inr full"
      "findClosestNote (real maxIdx * freqResolution / 2) = Inr half"
      using findClosestNote_Inr by blast
    then have loud: "round64 0.05 < maxMag \<Longrightarrow> \<exists>d. report maxMag maxIdx = Inr (Some d)"
      by (simp add: report_loud)
    show "maxMag \<le> round64 0.05 \<Longrightarrow> report maxMag maxIdx = Inr None"
      by (rule report_silent)
    then show "(\<exists>d. report maxMag maxIdx = Inr (Some d)) \<longleftrightarrow> round64 0.05 < maxMag"
      using loud by (cases "round64 0.05 < maxMag") auto
  qed
  obtain maxMag maxIdx where p: "findPeak mags = (maxMag, maxIdx)" by (cases "findPeak mags")
  have r: "processAudio inp = report maxMag maxIdx" by (rule processAudio_peak[OF assms p])
  have "(\<exists>d. processAudio inp = Inr (Some d)) \<longleftrightarrow> round64 0.05 < fst (findPeak mags)"
    unfolding r p using rep[of maxMag maxIdx] by simp
  moreover have "fst (findPeak mags) \<le> round64 0.05 \<longrightarrow> processAudio inp = Inr None"
    unfolding r p using silent[of maxMag maxIdx] by simp
  moreover have "\<forall>maxIdx. report (round64 0.05) maxIdx = Inr None"
    using silent by simp
  ultimately show ?thesis using rep float64_0_05 by blast
qed

theorem detection_iff_above_threshold_witness:
  "(\<exists>mags. spectrum [3355443 / 2 ^ 26, 3355443 / 2 ^ 50, 13 / 2 ^ 56] = Inr mags
          \<and> fst (findPeak mags) = round64 0.05)
   \<and> processAudio [3355443 / 2 ^ 26, 3355443 / 2 ^ 50, 13 / 2 ^ 56] = Inr None
   \<and> (\<exists>mags. spectrum [13421773 / 2 ^ 28] = Inr mags \<and> round64 0.05 < fst (findPeak mags))
   \<and> (\<exists>d. processAudio [13421773 / 2 ^ 28] = Inr (Some d))"
proof -
  obtain m1 where s1: "spectrum [3355443 / 2 ^ 26, 3355443 / 2 ^ 50, 13 / 2 ^ 56] = Inr m1"
    and p1: "findPeak m1 = (3355443 / 2 ^ 26 + 3355443 / 2 ^ 50 + 13 / 2 ^ 56, 0)"
    using findPeak_three[of "3355443 / 2 ^ 26" "3355443 / 2 ^ 50" "13 / 2 ^ 56"] by auto
  have v1: "fst (findPeak m1) = round64 0.05"
    unfolding p1 float64_0_05 by simp
  have s2: "spectrum [13421773 / 2 ^ 28] = Inr (replicate 1024 (13421773 / 2 ^ 28))"
    using spectrum_impulse[of "13421773 / 2 ^ 28"] by (simp add: framesPerBuffer_def)
  have p2: "findPeak (replicate 1024 (13421773 / 2 ^ 28 :: real)) = (13421773 / 2 ^ 28, 0)"
    using findPeak_const[of "13421773 / 2 ^ 28"] by (simp add: framesPerBuffer_def)
  have v2: "round64 0.05 < fst (findPeak (replicate 1024 (13421773 / 2 ^ 28 :: real)))"
    unfolding p2 float64_0_05 by simp
  from detection_iff_above_threshold[OF s1] v1
  have "processAudio [3355443 / 2 ^ 26, 3355443 / 2 ^ 50, 13 / 2 ^ 56] = Inr None" by simp
  moreover from detection_iff_above_threshold[OF s2] v2
  have "\<exists>d. processAudio [13421773 / 2 ^ 28] = Inr (Some d)" by blast
  ultimately show ?thesis using s1 v1 s2 v2 by blast
qed

text \<open>
  Claim C4. \<open>findClosestNote\<close> returns, for every frequency, a note of the table. On the
  frequency of the table's entry \<open>k\<close> it returns that entry, and on the frequency halfway
  between the entries \<open>k\<close> and \<open>k + 1\<close> it returns the entry \<open>k\<close>, the lower one. This holds
  with the rounded float64 differences, for every table of 61 notes whose frequencies lie
  within \<open>1/1000\<close> of \<open>440 * 2 powr ((i - 33) / 12)\<close>: the table of the program, whatever
  the rounding of \<open>math.Pow\<close> and of the products, and the exact table \<open>pianoNotes\<close>.
\<close>

theorem findClosestNote_total_nearest:
  assumes "length table = 61"
    and "\<forall>i<61. \<bar>Frequency (table ! i) - 440 * 2 powr ((real i - 33) / 12)\<bar> \<le> 1 / 1000"
  shows "(\<exists>n\<in>set table. findClosestNote_in table freq = Inr n)
   \<and> (\<forall>k<61. findClosestNote_in table (Frequency (table ! k)) = Inr (table ! k))
   \<and> (\<forall>k<60. findClosestNote_in table ((Frequency (table ! k) + Frequency (table ! (k + 1))) / 2)
              = Inr (table ! k))
   \<and> (\<exists>n\<in>set pianoNotes. findClosestNote freq = Inr n)
   \<and> (\<forall>k<61. findClosestNote (Frequency (pianoNotes ! k)) = Inr (pianoNotes ! k))
   \<and> (\<forall>k<60. findClosestNote ((Frequency (pianoNotes ! k) + Frequency (pianoNotes ! (k + 1))) / 2)
              = Inr (pianoNotes ! k))"
proof -
  have general: "(\<exists>n\<in>set t. findClosestNote_in t freq = Inr n)
      \<and> (\<forall>k<61. findClosestNote_in t (Frequency (t ! k)) = Inr (t ! k))
      \<and> (\<forall>k<60. findClosestNote_in t ((Frequency (t ! k) + Frequency (t ! (k + 1))) / 2)
              = Inr (t ! k))"
    if len: "length t = 61"
      and near: "\<forall>i<61. \<bar>Frequency (t ! i) - 440 * 2 powr ((real i - 33) / 12)\<bar> \<le> 1 / 1000"
    for t
  proof -
    have "t \<noteq> []" using len by auto
    from findClosestNote_in_total[OF this]
    have "\<exists>n\<in>set t. findClosestNote_in t freq = Inr n" .
    moreover have "\<forall>k<61. findClosestNote_in t (Frequency (t ! k)) = Inr (t ! k)"
      using findClosestNote_in_exact[OF len near] by blast
    moreover have "\<forall>k<60. findClosestNote_in t
          ((Frequency (t ! k) + Frequency (t ! (k + 1))) / 2) = Inr (t ! k)"
      using findClosestNote_in_halfway[OF len near] by blast
    ultimately show ?thesis by blast
  qed
  from general[OF assms] general[OF pianoNotes_length pianoNotes_near]
  show ?thesis unfolding findClosestNote_def by blast
qed

theorem findClosestNote_total_nearest_witness:
  "findClosestNote 440 = Inr \<lparr>Name = ''A4'', Frequency = 440\<rparr>
   \<and> findClosestNote ((440 + 440 * 2 powr (1 / 12)) / 2) = Inr \<lparr>Name = ''A4'', Frequency = 440\<rparr>
   \<and> findClosestNote (10 ^ 19) = Inr \<lparr>Name = ''C6'', Frequency = 440 * 2 powr (5 / 4)\<rparr>
   \<and> \<lparr>Name = ''C6'', Frequency = 440 * 2 powr (5 / 4)\<rparr> \<in> set pianoNotes
   \<and> findClosestNote_in (map (\<lambda>n. n\<lparr>Frequency := round64 (Frequency n)\<rparr>) pianoNotes)
        ((Frequency (map (\<lambda>n. n\<lparr>Frequency := round64 (Frequency n)\<rparr>) pianoNotes ! 10)
          + Frequency (map (\<lambda>n. n\<lparr>Frequency := round64 (Frequency n)\<rparr>) pianoNotes ! (10 + 1))) / 2)
       = Inr (map (\<lambda>n. n\<lparr>Frequency := round64 (Frequency n)\<rparr>) pianoNotes ! 10)"
proof -
  have n33: "pianoNotes ! 33 = \<lparr>Name = ''A4'', Frequency = 440\<rparr>"
    by (simp add: pianoNotes_nth make_note_33)
  have f34: "Frequency (pianoNotes ! 34) = 440 * 2 powr (1 / 12)"
    by (simp add: pianoNotes_nth make_note_Frequency)
  note t = findClosestNote_total_nearest[OF pianoNotes_length pianoNotes_near]
  have "(33::nat) < 61" and "(33::nat) < 60" by simp_all
  with t[of 0] have
    "findClosestNote (Frequency (pianoNotes ! 33)) = Inr (pianoNotes ! 33)"
    "findClosestNote
       ((Frequency (pianoNotes ! 33) + Frequency (pianoNotes ! (33 + 1))) / 2) = Inr (pianoNotes ! 33)"
    by blast+
  then have "findClosestNote 440 = Inr \<lparr>Name = ''A4'', Frequency = 440\<rparr>"
    and "findClosestNote ((440 + 440 * 2 powr (1 / 12)) / 2) = Inr \<lparr>Name = ''A4'', Frequency = 440\<rparr>"
    using f34 by (simp_all add: n33)
  moreover from t[of "10 ^ 19"] findClosestNote_absorbed
  have "\<lparr>Name = ''C6'', Frequency = 440 * 2 powr (5 / 4)\<rparr> \<in> set pianoNotes"
    by auto
  moreover have len: "length (map (\<lambda>n. n\<lparr>Frequency := round64 (Frequency n)\<rparr>) pianoNotes) = 61"
    by (simp add: pianoNotes_length)
  have "findClosestNote_in (map (\<lambda>n. n\<lparr>Frequency := round64 (Frequency n)\<rparr>) pianoNotes)
        ((Frequency (map (\<lambda>n. n\<lparr>Frequency := round64 (Frequency n)\<rparr>) pianoNotes ! 10)
          + Frequency (map (\<lambda>n. n\<lparr>Frequency := round64 (Frequency n)\<rparr>) pianoNotes ! (10 + 1))) / 2)
       = Inr (map (\<lambda>n. n\<lparr>Frequency := round64 (Frequency n)\<rparr>) pianoNotes ! 10)"
  proof -
    have "(10::nat) < 60" by simp
    with findClosestNote_total_nearest[OF len rounded_table_near, of 0]
    show ?thesis by blast
  qed
  ultimately show ?thesis using findClosestNote_absorbed by blast
qed

text \<open>
  Claim C5. \<open>generatePianoNotes\<close> returns 61 notes, the one at index \<open>i\<close> with the
  frequency \<open>440 * 2 powr ((i - 33) / 12)\<close>; the entry at index 33 lies within \<open>1e-6\<close> of
  440 and is named A4.
\<close>

theorem generatePianoNotes_table:
  "length generatePianoNotes = 61
   \<and> (\<forall>i<61. Frequency (generatePianoNotes ! i) = 440 * 2 powr ((real i - 33) / 12))
   \<and> \<bar>Frequency (generatePianoNotes ! 33) - 440\<bar> < 1 / 10 ^ 6
   \<and> Name (generatePianoNotes ! 33) = ''A4''"
proof -
  have len: "length generatePianoNotes = 61"
    by (simp add: generatePianoNotes_map)
  have nth: "generatePianoNotes ! i = make_note i" if "i < 61" for i
    using that by (simp add: generatePianoNotes_map)
  have freq: "\<forall>i<61. Frequency (generatePianoNotes ! i) = 440 * 2 powr ((real i - 33) / 12)"
    by (simp add: nth make_note_Frequency)
  have a4: "Frequency (generatePianoNotes ! 33) = 440"
    by (simp add: nth make_note_Frequency)
  have name: "Name (generatePianoNotes ! 33) = ''A4''"
    by (simp add: nth make_note_Name noteNames_def digit_char_def)
  show ?thesis using len freq name by (simp add: a4)
qed

theorem generatePianoNotes_table_witness:
  "Frequency (generatePianoNotes ! 45) = 880 \<and> Frequency (generatePianoNotes ! 0) = 440 * 2 powr (- 33 / 12)"
proof -
  from generatePianoNotes_table have
    "Frequency (generatePianoNotes ! 45) = 440 * 2 powr ((real 45 - 33) / 12)"
    "Frequency (generatePianoNotes ! 0) = 440 * 2 powr ((real 0 - 33) / 12)"
    by simp_all
  then show ?thesis by simp
qed

text \<open>
  Claim C6. The frequencies of the generated table increase strictly, and the name of the
  entry \<open>i\<close> is the pitch class number \<open>i mod 12\<close> of the chromatic cycle starting at C,
  followed by the octave number \<open>2 + i div 12\<close>.
\<close>

theorem generatePianoNotes_ascending_named:
  "(\<forall>i<60. Frequency (generatePianoNotes ! i) < Frequency (generatePianoNotes ! (i + 1)))
   \<and> (\<forall>i<61. Name (generatePianoNotes ! i) =
         [''C'', ''C#'', ''D'', ''D#'', ''E'', ''F'', ''F#'', ''G'', ''G#'', ''A'', ''A#'', ''B''] ! (i mod 12)
           @ sprintf_d (2 + i div 12))"
proof -
  have nth: "generatePianoNotes ! i = make_note i" if "i < 61" for i
    using that by (simp add: generatePianoNotes_map)
  have "\<forall>i<60. Frequency (generatePianoNotes ! i) < Frequency (generatePianoNotes ! (i + 1))"
    by (simp add: nth Frequency_strict_mono)
  moreover have "\<forall>i<61. Name (generatePianoNotes ! i) =
         [''C'', ''C#'', ''D'', ''D#'', ''E'', ''F'', ''F#'', ''G'', ''G#'', ''A'', ''A#'', ''B''] ! (i mod 12)
           @ sprintf_d (2 + i div 12)"
    by (simp add: nth make_note_Name noteNames_def)
  ultimately show ?thesis by blast
qed

theorem generatePianoNotes_ascending_named_witness:
  "Frequency (generatePianoNotes ! 59) < Frequency (generatePianoNotes ! 60)
   \<and> Name (generatePianoNotes ! 0) = ''C2''
   \<and> Name (generatePianoNotes ! 13) = ''C#3''
   \<and> Name (generatePianoNotes ! 60) = ''C7''"
proof -
  have "(59::nat) < 60" and "(0::nat) < 61" and "(13::nat) < 61" and "(60::nat) < 61" by simp_all
  with generatePianoNotes_ascending_named have
    "Frequency (generatePianoNotes ! 59) < Frequency (generatePianoNotes ! (59 + 1))"
    by blast
  moreover from \<open>(0::nat) < 61\<close> \<open>(13::nat) < 61\<close> \<open>(60::nat) < 61\<close>
    generatePianoNotes_ascending_named have
    "Name (generatePianoNotes ! 0) =
       [''C'', ''C#'', ''D'', ''D#'', ''E'', ''F'', ''F#'', ''G'', ''G#'', ''A'', ''A#'', ''B''] ! (0 mod 12)
           @ sprintf_d (2 + 0 div 12)"
    "Name (generatePianoNotes ! 13) =
       [''C'', ''C#'', ''D'', ''D#'', ''E'', ''F'', ''F#'', ''G'', ''G#'', ''A'', ''A#'', ''B''] ! (13 mod 12)
           @ sprintf_d (2 + 13 div 12)"
    "Name (generatePianoNotes ! 60) =
       [''C'', ''C#'', ''D'', ''D#'', ''E'', ''F'', ''F#'', ''G'', ''G#'', ''A'', ''A#'', ''B''] ! (60 mod 12)
           @ sprintf_d (2 + 60 div 12)"
    by blast+
  ultimately show ?thesis by (simp add: digit_char_def)
qed

text \<open>
  Claim C7. For a block of zeros every magnitude of the spectrum is zero, the peak scan
  returns magnitude 0 at bin 0 (frequency 0), and the block reports nothing.
\<close>

theorem silence_no_detection:
  assumes "n \<le> framesPerBuffer"
  shows "spectrum (replicate n 0) = Inr (replicate (framesPerBuffer div 2) 0)
       \<and> findPeak (replicate (framesPerBuffer div 2) 0) = (0, 0)
       \<and> real (snd (findPeak (replicate (framesPerBuffer div 2) 0))) * freqResolution = 0
       \<and> processAudio (replicate n 0) = Inr None"
proof -
  have s: "spectrum (replicate n 0) = Inr (replicate (framesPerBuffer div 2) 0)"
    by (rule spectrum_zero[OF assms])
  have p: "findPeak (replicate (framesPerBuffer div 2) 0) = (0, 0)"
    by (rule findPeak_zero)
  have "processAudio (replicate n 0) = report 0 0"
    by (rule processAudio_peak[OF s p])
  also have "\<dots> = Inr None" by (rule report_silent) (simp add: float64_twentieth)
  finally show ?thesis using s p by simp
qed

theorem silence_no_detection_witness:
  "spectrum (replicate 2048 0) = Inr (replicate 1024 0)
   \<and> findPeak (replicate 1024 0) = (0, 0)
   \<and> processAudio (replicate 2048 0) = Inr None"
  using silence_no_detection[of 2048] by (simp add: framesPerBuffer_def)

text \<open>
  Claim C8. With a sample rate of 44100 and 2048 frames per buffer the bin width
  \<open>freqResolution\<close> is within 0.01 of 21.53 Hz and the search limit
  \<open>int(2200.0 / freqResolution)\<close> is 102.
\<close>

theorem bin_resolution:
  "freqResolution = real sampleRate / real framesPerBuffer
   \<and> \<bar>freqResolution - 21.53\<bar> < 0.01
   \<and> highFreqLimit = go_int (2200 / freqResolution)
   \<and> highFreqLimit = 102"
  by (simp add: highFreqLimit_def go_int_def freqResolution_def sampleRate_def framesPerBuffer_def)

text \<open>
  Claim C9. The peak scan returns a bin of maximal magnitude in the scanned range
  \<open>[0, min(highFreqLimit, len(magnitudes)))\<close>, and among the bins that share this
  magnitude the lowest one; the raw frequency reported is therefore the smallest among
  the tied bins.
\<close>

theorem peak_scan_lowest_tied_bin:
  assumes "spectrum inp = Inr mags" and "findPeak mags = (maxMag, maxIdx)"
  shows "maxIdx < min (nat highFreqLimit) (length mags)
       \<and> maxMag = mags ! maxIdx
       \<and> (\<forall>j<min (nat highFreqLimit) (length mags). mags ! j \<le> maxMag)
       \<and> (\<forall>j<min (nat highFreqLimit) (length mags). mags ! j = maxMag \<longrightarrow>
             maxIdx \<le> j \<and> real maxIdx * freqResolution \<le> real j * freqResolution)
       \<and> (\<forall>d. processAudio inp = Inr (Some d) \<longrightarrow> rawFrequency d = real maxIdx * freqResolution)"
proof -
  have n: "min (nat highFreqLimit) (length mags) = min 102 (length mags)"
    by (simp add: highFreqLimit_eq)
  have len: "length mags = 1024"
    using spectrum_Inr_D(2)[OF assms(1)] by (simp add: framesPerBuffer_def)
  have nonneg: "\<forall>j<min 102 (length mags). 0 \<le> mags ! j"
    using spectrum_Inr_D(3)[OF assms(1)] len by (simp add: framesPerBuffer_def)
  have "0 < min 102 (length mags)" by (simp add: len)
  from findPeak_char[OF this nonneg] assms(2)
  have k: "maxIdx < min 102 (length mags)" "maxMag = mags ! maxIdx"
    "\<forall>j<min 102 (length mags). mags ! j \<le> mags ! maxIdx" "\<forall>j<maxIdx. mags ! j < mags ! maxIdx"
    by auto
  have res: "0 \<le> freqResolution"
    by (simp add: freqResolution_def)
  have tie: "\<forall>j<min 102 (length mags). mags ! j = maxMag \<longrightarrow>
             maxIdx \<le> j \<and> real maxIdx * freqResolution \<le> real j * freqResolution"
  proof (intro allI impI)
    fix j assume "j < min 102 (length mags)" and eq: "mags ! j = maxMag"
    have "maxIdx \<le> j"
    proof (rule ccontr)
      assume "\<not> maxIdx \<le> j"
      then have "mags ! j < mags ! maxIdx" using k(4) by simp
      with eq k(2) show False by simp
    qed
    then show "maxIdx \<le> j \<and> real maxIdx * freqResolution \<le> real j * freqResolution"
      using res by (simp add: mult_right_mono)
  qed
  have r: "processAudio inp = report maxMag maxIdx" by (rule processAudio_peak[OF assms])
  obtain full half where
    "findClosestNote (real maxIdx * freqResolution) = Inr full"
    "findClosestNote (real maxIdx * freqResolution / 2) = Inr half"
    using findClosestNote_Inr by blast
  then have raw: "\<forall>d. processAudio inp = Inr (Some d) \<longrightarrow> rawFrequency d = real maxIdx * freqResolution"
    unfolding r using report_loud[of maxMag maxIdx full half] report_silent[of maxMag maxIdx]
    by (cases "round64 0.05 < maxMag") auto
  show ?thesis unfolding n using k tie raw by simp
qed

theorem peak_scan_lowest_tied_bin_witness:
  "spectrum [1] = Inr (replicate 1024 1)
   \<and> findPeak (replicate 1024 1) = (1, 0)
   \<and> replicate 1024 (1::real) ! 101 = 1"
proof -
  have s: "spectrum [1] = Inr (replicate 1024 1)"
    using spectrum_impulse[of 1] by (simp add: framesPerBuffer_def)
  obtain maxMag maxIdx where p: "findPeak (replicate 1024 (1::real)) = (maxMag, maxIdx)"
    by (cases "findPeak (replicate 1024 (1::real))")
  have z: "0 < min (nat highFreqLimit) (length (replicate 1024 (1::real)))"
    by (simp add: highFreqLimit_eq)
  from peak_scan_lowest_tied_bin[OF s p]
  have "maxIdx < min (nat highFreqLimit) (length (replicate 1024 (1::real)))"
    and m: "maxMag = replicate 1024 1 ! maxIdx"
    and "\<forall>j<min (nat highFreqLimit) (length (replicate 1024 (1::real))).
           replicate 1024 (1::real) ! j = maxMag \<longrightarrow> maxIdx \<le> j \<and> real maxIdx * freqResolution \<le> real j * freqResolution"
    by blast+
  with z have "maxIdx < 102" "replicate 1024 (1::real) ! 0 = maxMag \<longrightarrow> maxIdx \<le> 0"
    by (simp add: highFreqLimit_eq, blast)
  with m have "maxMag = 1" "maxIdx = 0" by simp_all
  with p s show ?thesis by simp
qed



end
